theory Spec2Isabelle
  imports Complex_Main
begin

section \<open>Numbers and platform values\<close>

text \<open>
  The program is JavaScript that runs in a browser. Its numbers are modelled as exact
  rationals (\<^typ>\<open>rat\<close>): natural image sizes are \<^typ>\<open>nat\<close>, the results of
  \<^verbatim>\<open>Math.round\<close> and \<^verbatim>\<open>Math.ceil\<close> are \<^typ>\<open>int\<close>. Rounding errors of IEEE
  doubles are left out wherever a result is stated on concrete inputs whose run is the same
  with and without them; the number of passes of the quality search is not of that kind,
  and is proved on the loop with every operation rounded to a double
  (\<open>searchQualityDouble\<close> below). Division by zero is kept out of every statement by a
  hypothesis on the divisor, since HOL's \<open>x / 0 = 0\<close> is not JavaScript's \<open>Infinity\<close>.
\<close>

text \<open>\<^verbatim>\<open>Math.round(x)\<close>: the nearest integer, a tie going up.\<close>

definition Math_round :: "rat \<Rightarrow> int" where
  "Math_round x = \<lfloor>x + 1 / 2\<rfloor>"

text \<open>\<^verbatim>\<open>Math.ceil(x)\<close>.\<close>

definition Math_ceil :: "rat \<Rightarrow> int" where
  "Math_ceil x = \<lceil>x\<rceil>"

text \<open>
  An optional numeric argument: \<open>None\<close> is \<^verbatim>\<open>null\<close> (or \<^verbatim>\<open>undefined\<close>).
  \<open>truthy\<close> is the test \<^verbatim>\<open>if (m)\<close>, which \<^verbatim>\<open>null\<close> and \<open>0\<close> fail;
  \<open>num\<close> is the value a comparison or a product reads (\<^verbatim>\<open>null\<close> reads as \<open>0\<close>).
\<close>

fun truthy :: "rat option \<Rightarrow> bool" where
  "truthy None = False"
| "truthy (Some v) = (v \<noteq> 0)"

fun num :: "rat option \<Rightarrow> rat" where
  "num None = 0"
| "num (Some v) = v"

subsection \<open>IEEE doubles\<close>

text \<open>
  A JavaScript number is an IEEE 754 double, and every arithmetic operation returns the
  exact result rounded to the nearest double, a tie going to the even significand.
  \<open>roundEven\<close> is that rounding on the integers.
\<close>

definition roundEven :: "rat \<Rightarrow> int" where
  "roundEven x =
     (let n = \<lfloor>x\<rfloor>; r = x - of_int n
      in if r < 1 / 2 then n else if r > 1 / 2 then n + 1 else if even n then n else n + 1)"

text \<open>
  \<open>dbl x\<close> is the double nearest to a positive rational \<open>x\<close>: \<open>x\<close> is scaled by powers
  of two into \<open>[2 ^ 52, 2 ^ 53)\<close>, where the doubles are the integers, rounded there and
  scaled back.
\<close>

function dbl :: "rat \<Rightarrow> rat" where
  "dbl x =
     (if x \<le> 0 then 0
      else if x < 2 ^ 52 then dbl (2 * x) / 2
      else if 2 ^ 53 \<le> x then dbl (x / 2) * 2
      else of_int (roundEven x))"
  by pat_completeness auto
termination
proof (relation "measure (\<lambda>x. if x < 2 ^ 52 then nat \<lceil>2 ^ 52 / x\<rceil> else nat \<lfloor>x / 2 ^ 53\<rfloor>)",
       goal_cases)
  case 1
  show ?case by simp
next
  case (2 x)
  define t where "t = 2 ^ 52 / x"
  have x: "0 < x" "x < 2 ^ 52" using 2 by simp_all
  have t: "1 < t" using x by (simp add: t_def)
  have t2: "2 ^ 52 / (2 * x) = t / 2" by (simp add: t_def)
  have "\<lceil>t / 2\<rceil> < \<lceil>t\<rceil>"
  proof (cases "t \<le> 2")
    case True
    then have "\<lceil>t / 2\<rceil> \<le> 1" by (simp add: ceiling_le_iff)
    moreover have "2 \<le> \<lceil>t\<rceil>" using t by (simp add: le_ceiling_iff)
    ultimately show ?thesis by linarith
  next
    case False
    have "of_int \<lceil>t / 2\<rceil> < t / 2 + 1" using ceiling_correct [of "t / 2"] by linarith
    also have "\<dots> \<le> t" using False by simp
    finally have "of_int \<lceil>t / 2\<rceil> < t" .
    then show ?thesis by (simp add: less_ceiling_iff)
  qed
  moreover have "0 < \<lceil>t\<rceil>" using t by simp
  ultimately have a: "nat \<lceil>t / 2\<rceil> < nat \<lceil>t\<rceil>" by linarith
  have b: "nat \<lfloor>2 * x / 2 ^ 53\<rfloor> < nat \<lceil>t\<rceil>"
  proof -
    have "2 * x / 2 ^ 53 < 1" using x by simp
    then have "\<lfloor>2 * x / 2 ^ 53\<rfloor> \<le> 0" by (simp add: floor_le_iff)
    moreover have "2 \<le> \<lceil>t\<rceil>" using t by (simp add: le_ceiling_iff)
    ultimately show ?thesis by linarith
  qed
  show ?case
  proof (cases "2 * x < 2 ^ 52")
    case True
    have "nat \<lceil>2 ^ 52 / (2 * x)\<rceil> < nat \<lceil>2 ^ 52 / x\<rceil>" using a by (simp only: t2 t_def)
    then show ?thesis using True x(2) by (simp only: in_measure if_True)
  next
    case False
    have "nat \<lfloor>2 * x / 2 ^ 53\<rfloor> < nat \<lceil>2 ^ 52 / x\<rceil>" using b by (simp only: t_def)
    then show ?thesis using False x(2) by (simp only: in_measure if_True if_False)
  qed
next
  case (3 x)
  define u where "u = x / 2 ^ 53"
  have u: "1 \<le> u" using 3 by (simp add: u_def)
  have u2: "x / 2 / 2 ^ 53 = u / 2" by (simp add: u_def)
  have "of_int (\<lfloor>u / 2\<rfloor> + 1) \<le> u"
  proof (cases "2 \<le> u")
    case True
    have "of_int \<lfloor>u / 2\<rfloor> \<le> u / 2" by (rule of_int_floor_le)
    with True show ?thesis by simp
  next
    case False
    with u have "\<lfloor>u / 2\<rfloor> = 0" by (intro floor_unique) simp_all
    with u show ?thesis by simp
  qed
  then have "\<lfloor>u / 2\<rfloor> + 1 \<le> \<lfloor>u\<rfloor>" by (simp only: le_floor_iff)
  moreover have "1 \<le> \<lfloor>u\<rfloor>" using u by (simp add: le_floor_iff)
  ultimately have a: "nat \<lfloor>u / 2\<rfloor> < nat \<lfloor>u\<rfloor>" by linarith
  have n: "\<not> x / 2 < 2 ^ 52" "\<not> x < 2 ^ 52" using 3 by simp_all
  have "nat \<lfloor>x / 2 / 2 ^ 53\<rfloor> < nat \<lfloor>x / 2 ^ 53\<rfloor>" using a by (simp only: u2 u_def)
  then show ?case using n by (simp only: in_measure if_False)
qed

declare dbl.simps [simp del]

text \<open>
  \<open>double x\<close> is the double nearest to \<open>x\<close>. A literal such as \<^verbatim>\<open>0.1\<close> is
  \<open>double (1 / 10)\<close>, and \<^verbatim>\<open>a - b\<close> on doubles \<open>a\<close> and \<open>b\<close> is \<open>double (a - b)\<close>. The
  exponent is not bounded here: \<open>double\<close> is the IEEE rounding for magnitudes from
  \<open>2 ^ -1022\<close> up to \<open>2 ^ 1024\<close>, a range the quality search on \<open>[0.1, 1]\<close> stays far
  inside.
\<close>

definition double :: "rat \<Rightarrow> rat" where
  "double x = (if x < 0 then - dbl (- x) else dbl x)"

section \<open>ImageUtils\<close>

text \<open>A \<^verbatim>\<open>File\<close>: its name, its MIME type and its size in bytes.\<close>

record input_file =
  name :: string
  ftype :: string
  fsize :: nat

text \<open>
  The exceptions. \<open>UnsupportedFormat\<close> and \<open>FileTooLarge\<close> are thrown by
  \<^verbatim>\<open>validateFile\<close> with the type and the size in the message; \<open>ImageLoadFailed\<close> and
  \<open>GifLoadFailed\<close> are the rejections of a failed decode; \<open>NullBlob\<close> is the
  \<^verbatim>\<open>TypeError\<close> of reading the size of a \<^verbatim>\<open>null\<close> blob; the last three are an exception
  caught and thrown again with the prefix of the compressor, the converter or the cropper.
\<close>

datatype error =
    UnsupportedFormat string
  | FileTooLarge nat
  | ImageLoadFailed
  | NullBlob
  | GifLoadFailed
  | CompressFailed error
  | ConvertFailed error
  | CropInitFailed error

definition supportedFormats :: "string list" where
  "supportedFormats = [''image/jpeg'', ''image/png'', ''image/webp'', ''image/avif'', ''image/gif'']"

definition maxFileSize :: nat where
  "maxFileSize = 50 * 1024 * 1024"

text \<open>\<^verbatim>\<open>validateFile(file)\<close>: throws on a type outside the list, then on an oversize file.\<close>

definition validateFile :: "input_file \<Rightarrow> error + bool" where
  "validateFile f =
     (if ftype f \<notin> set supportedFormats then Inl (UnsupportedFormat (ftype f))
      else if fsize f > maxFileSize then Inl (FileTooLarge (fsize f))
      else Inr True)"

text \<open>\<^verbatim>\<open>getFormatExtension(format)\<close>, with \<^verbatim>\<open>jpg\<close> for an unknown format.\<close>

definition getFormatExtension :: "string \<Rightarrow> string" where
  "getFormatExtension format =
     (case map_of [(''image/jpeg'', ''jpg''), (''image/png'', ''png''), (''image/webp'', ''webp''),
                   (''image/avif'', ''avif''), (''image/gif'', ''gif'')] format of
        Some e \<Rightarrow> e
      | None \<Rightarrow> ''jpg'')"

text \<open>
  \<^verbatim>\<open>originalName.replace(/\.[^/.]+$/, '')\<close>: the text after the last dot is cut off together
  with the dot when it is not empty and holds no slash.
\<close>

definition stripExtension :: "string \<Rightarrow> string" where
  "stripExtension s =
     (let r = rev s;
          ext = takeWhile (\<lambda>c. c \<noteq> CHR ''.'' \<and> c \<noteq> CHR ''/'') r;
          rest = dropWhile (\<lambda>c. c \<noteq> CHR ''.'' \<and> c \<noteq> CHR ''/'') r
      in case rest of
           [] \<Rightarrow> s
         | c # front \<Rightarrow> if c = CHR ''.'' \<and> ext \<noteq> [] then rev front else s)"

definition generateFileName :: "string \<Rightarrow> string \<Rightarrow> string \<Rightarrow> string" where
  "generateFileName originalName format suffix =
     stripExtension originalName @ suffix @ ''.'' @ getFormatExtension format"

record dims =
  width :: int
  height :: int

text \<open>
  \<^verbatim>\<open>calculateResizedDimensions(originalWidth, originalHeight, maxWidth, maxHeight,
  keepAspectRatio)\<close>. The two mutable locals \<^verbatim>\<open>width\<close> and \<^verbatim>\<open>height\<close> are the pairs
  \<open>(w1, h1)\<close> after the width clamp and \<open>(w2, h2)\<close> after the height clamp.
\<close>

definition calculateResizedDimensions ::
  "nat \<Rightarrow> nat \<Rightarrow> rat option \<Rightarrow> rat option \<Rightarrow> bool \<Rightarrow> dims" where
  "calculateResizedDimensions originalWidth originalHeight maxWidth maxHeight keepAspectRatio =
     (if \<not> truthy maxWidth \<and> \<not> truthy maxHeight
      then \<lparr>width = int originalWidth, height = int originalHeight\<rparr>
      else
        let w0 = (of_nat originalWidth :: rat);
            h0 = (of_nat originalHeight :: rat);
            (w, h) =
              (if keepAspectRatio then
                 let aspectRatio = of_nat originalWidth / of_nat originalHeight in
                 if truthy maxWidth \<and> truthy maxHeight then
                   let (w1, h1) = (if w0 > num maxWidth
                                   then (num maxWidth, num maxWidth / aspectRatio)
                                   else (w0, h0));
                       (w2, h2) = (if h1 > num maxHeight
                                   then (num maxHeight * aspectRatio, num maxHeight)
                                   else (w1, h1))
                   in (w2, h2)
                 else if truthy maxWidth then
                   (if w0 > num maxWidth
                    then (num maxWidth, num maxWidth / aspectRatio)
                    else (w0, h0))
                 else if truthy maxHeight then
                   (if h0 > num maxHeight
                    then (num maxHeight * aspectRatio, num maxHeight)
                    else (w0, h0))
                 else (w0, h0)
               else
                 (if truthy maxWidth then min w0 (num maxWidth) else w0,
                  if truthy maxHeight then min h0 (num maxHeight) else h0))
        in \<lparr>width = Math_round w, height = Math_round h\<rparr>)"


subsection \<open>The browser\<close>

text \<open>
  Decoding, drawing and encoding are done by the browser. They are parameters of the
  model: a record of functions, about which nothing is assumed.
  \<^item> \<open>createImageElement\<close>: the decoded image of a file, \<open>None\<close> when its
    \<^verbatim>\<open>onerror\<close> fires;
  \<^item> \<open>drawImage src w h\<close>: the bitmap after \<^verbatim>\<open>ctx.drawImage(src, 0, 0, w, h)\<close> on a
    cleared canvas, \<open>drawImageAt src\<close> the one after \<^verbatim>\<open>ctx.drawImage(src, 0, 0)\<close>;
  \<^item> \<open>drawImageRegion src sx sy sw sh dw dh\<close>: the bitmap after
    \<^verbatim>\<open>ctx.drawImage(src, sx, sy, sw, sh, 0, 0, dw, dh)\<close>;
  \<^item> \<open>toBlob canvas format quality\<close>: what \<^verbatim>\<open>canvas.toBlob\<close> hands to its callback,
    \<open>None\<close> for \<^verbatim>\<open>null\<close>.
\<close>

record 'px image =
  naturalWidth :: nat
  naturalHeight :: nat
  pixels :: 'px

record 'px canvas = dims +
  bitmap :: 'px

record 'd blob =
  blob_size :: nat
  blob_data :: 'd

record ('px, 'd) browser =
  createImageElement :: "input_file \<Rightarrow> 'px image option"
  drawImage :: "'px \<Rightarrow> int \<Rightarrow> int \<Rightarrow> 'px"
  drawImageAt :: "'px \<Rightarrow> 'px"
  drawImageRegion :: "'px \<Rightarrow> int \<Rightarrow> int \<Rightarrow> int \<Rightarrow> int \<Rightarrow> int \<Rightarrow> int \<Rightarrow> 'px"
  toBlob :: "'px canvas \<Rightarrow> string \<Rightarrow> rat \<Rightarrow> 'd blob option"

text \<open>
  \<^verbatim>\<open>createCanvas(width, height)\<close> followed by \<^verbatim>\<open>drawImageToCanvas(img, canvas, 0, 0, width,
  height)\<close>: the scaled draw is taken when \<^verbatim>\<open>width && height\<close>.
\<close>

definition drawImageToCanvas :: "('px, 'd) browser \<Rightarrow> 'px \<Rightarrow> int \<Rightarrow> int \<Rightarrow> 'px canvas" where
  "drawImageToCanvas b src w h =
     \<lparr>width = w, height = h,
      bitmap = (if w \<noteq> 0 \<and> h \<noteq> 0 then drawImage b src w h else drawImageAt b src)\<rparr>"

text \<open>\<^verbatim>\<open>canvasToBlob(canvas, format, quality)\<close>: the promise resolves with the callback's argument.\<close>

definition canvasToBlob :: "('px, 'd) browser \<Rightarrow> 'px canvas \<Rightarrow> string \<Rightarrow> rat \<Rightarrow> 'd blob option" where
  "canvasToBlob b canvas format quality = toBlob b canvas format quality"

section \<open>ImageCompressor\<close>

subsection \<open>The quality search\<close>

text \<open>
  The locals of the \<^verbatim>\<open>while\<close> loop of \<^verbatim>\<open>iterateCompression\<close>. \<open>iterations\<close> is not in
  the source: it counts the passes through the loop body.
\<close>

record 'd search_state =
  minQuality :: rat
  maxQuality :: rat
  bestBlob :: "'d blob"
  bestQuality :: rat
  iterations :: nat

text \<open>
  The loop \<^verbatim>\<open>while (maxQuality - minQuality > 0.05)\<close>. It returns the locals as the loop
  leaves them, with the exception it was left by, if any: reading \<^verbatim>\<open>blob.size\<close> of a
  \<^verbatim>\<open>null\<close> blob is a \<^verbatim>\<open>TypeError\<close>. The arithmetic of \<open>searchQuality\<close> is exact;
  \<open>searchQualityDouble\<close> after it is the same loop in double precision.
\<close>

function searchQuality ::
  "('px, 'd) browser \<Rightarrow> 'px canvas \<Rightarrow> string \<Rightarrow> nat \<Rightarrow> 'd search_state
     \<Rightarrow> 'd search_state \<times> error option" where
  "searchQuality b canvas format targetSize s =
     (if maxQuality s - minQuality s > 1 / 20 then
        let quality = (minQuality s + maxQuality s) / 2;
            s1 = s\<lparr>iterations := Suc (iterations s)\<rparr>
        in case canvasToBlob b canvas format quality of
             None \<Rightarrow> (s1, Some NullBlob)
           | Some blob \<Rightarrow>
               if blob_size blob \<le> targetSize
               then searchQuality b canvas format targetSize
                      (s1\<lparr>bestBlob := blob, bestQuality := quality, maxQuality := quality\<rparr>)
               else searchQuality b canvas format targetSize (s1\<lparr>minQuality := quality\<rparr>)
      else (s, None))"
  by pat_completeness auto
termination
proof (relation "measure (\<lambda>(b, canvas, format, targetSize, s).
                   nat \<lfloor>(maxQuality s - minQuality s) * 20\<rfloor>)", goal_cases)
  case 1
  show ?case by simp
next
  case (2 b canvas format targetSize s quality s1 blob)
  define D where "D = (maxQuality s - minQuality s) * 20"
  have D: "1 < D" using 2(1) by (simp add: D_def)
  have half: "(quality - minQuality s) * 20 = D / 2"
    using 2(2) by (simp add: D_def field_simps)
  have "of_int (\<lfloor>D / 2\<rfloor> + 1) \<le> D"
  proof (cases "2 \<le> D")
    case True
    have "of_int \<lfloor>D / 2\<rfloor> \<le> D / 2" by (rule of_int_floor_le)
    with True show ?thesis by simp
  next
    case False
    with D have "\<lfloor>D / 2\<rfloor> = 0" by (intro floor_unique) simp_all
    with D show ?thesis by simp
  qed
  then have "\<lfloor>D / 2\<rfloor> + 1 \<le> \<lfloor>D\<rfloor>" by (simp only: le_floor_iff)
  moreover have "1 \<le> \<lfloor>D\<rfloor>" using D by (simp add: le_floor_iff)
  ultimately have "nat \<lfloor>D / 2\<rfloor> < nat \<lfloor>D\<rfloor>" by linarith
  then have "nat \<lfloor>(quality - minQuality s) * 20\<rfloor>
               < nat \<lfloor>(maxQuality s - minQuality s) * 20\<rfloor>"
    by (simp only: half D_def)
  then show ?case using 2(3) by simp
next
  case (3 b canvas format targetSize s quality s1 blob)
  define D where "D = (maxQuality s - minQuality s) * 20"
  have D: "1 < D" using 3(1) by (simp add: D_def)
  have half: "(maxQuality s - quality) * 20 = D / 2"
    using 3(2) by (simp add: D_def field_simps)
  have "of_int (\<lfloor>D / 2\<rfloor> + 1) \<le> D"
  proof (cases "2 \<le> D")
    case True
    have "of_int \<lfloor>D / 2\<rfloor> \<le> D / 2" by (rule of_int_floor_le)
    with True show ?thesis by simp
  next
    case False
    with D have "\<lfloor>D / 2\<rfloor> = 0" by (intro floor_unique) simp_all
    with D show ?thesis by simp
  qed
  then have "\<lfloor>D / 2\<rfloor> + 1 \<le> \<lfloor>D\<rfloor>" by (simp only: le_floor_iff)
  moreover have "1 \<le> \<lfloor>D\<rfloor>" using D by (simp add: le_floor_iff)
  ultimately have "nat \<lfloor>D / 2\<rfloor> < nat \<lfloor>D\<rfloor>" by linarith
  then have "nat \<lfloor>(maxQuality s - quality) * 20\<rfloor>
               < nat \<lfloor>(maxQuality s - minQuality s) * 20\<rfloor>"
    by (simp only: half D_def)
  then show ?case using 3(3) by simp
qed

declare searchQuality.simps [simp del]

text \<open>
  The same loop as the browser runs it: the difference \<^verbatim>\<open>maxQuality - minQuality\<close>, the
  literal \<^verbatim>\<open>0.05\<close>, the sum \<^verbatim>\<open>minQuality + maxQuality\<close> and its half are each rounded to
  a double. The rounded midpoint of two neighbouring doubles is one of the two, so that
  the interval need not shrink in every pass from every state: the loop is a partial
  function, \<open>None\<close> standing for a run that does not end, and that it returns is part of
  what is proved of it.
\<close>

partial_function (option) searchQualityDouble ::
  "('px, 'd) browser \<Rightarrow> 'px canvas \<Rightarrow> string \<Rightarrow> nat \<Rightarrow> 'd search_state
     \<Rightarrow> ('d search_state \<times> error option) option" where
  "searchQualityDouble b canvas format targetSize s =
     (if double (maxQuality s - minQuality s) > double (1 / 20) then
        let quality = double (double (minQuality s + maxQuality s) / 2);
            s1 = s\<lparr>iterations := Suc (iterations s)\<rparr>
        in case canvasToBlob b canvas format quality of
             None \<Rightarrow> Some (s1, Some NullBlob)
           | Some blob \<Rightarrow>
               if blob_size blob \<le> targetSize
               then searchQualityDouble b canvas format targetSize
                      (s1\<lparr>bestBlob := blob, bestQuality := quality, maxQuality := quality\<rparr>)
               else searchQualityDouble b canvas format targetSize (s1\<lparr>minQuality := quality\<rparr>)
      else Some (s, None))"


subsection \<open>Shrinking the canvas\<close>

text \<open>
  The loop \<^verbatim>\<open>while (scale > 0.3)\<close> of \<^verbatim>\<open>compressByResizing\<close>, with its locals
  \<^verbatim>\<open>currentCanvas\<close> and \<^verbatim>\<open>scale\<close> as arguments, and the \<^verbatim>\<open>return\<close> after it.
\<close>

function resizeLoop ::
  "('px, 'd) browser \<Rightarrow> string \<Rightarrow> nat \<Rightarrow> rat \<Rightarrow> 'px canvas \<Rightarrow> rat \<Rightarrow> error + 'd blob option" where
  "resizeLoop b format targetSize quality currentCanvas scale =
     (if scale > 3 / 10 then
        let newWidth = Math_round (of_int (width currentCanvas) * scale);
            newHeight = Math_round (of_int (height currentCanvas) * scale);
            newCanvas = drawImageToCanvas b (bitmap currentCanvas) newWidth newHeight
        in case canvasToBlob b newCanvas format quality of
             None \<Rightarrow> Inl NullBlob
           | Some blob \<Rightarrow>
               if blob_size blob \<le> targetSize then Inr (Some blob)
               else resizeLoop b format targetSize quality newCanvas (scale * (9 / 10))
      else Inr (canvasToBlob b currentCanvas format (1 / 10)))"
  by pat_completeness auto
termination
proof (relation "measure (\<lambda>(b, format, targetSize, quality, currentCanvas, scale).
                   nat \<lceil>(scale - 3 / 10) * (100 / 3)\<rceil>)", goal_cases)
  case 1
  show ?case by simp
next
  case (2 b format targetSize quality currentCanvas scale newWidth newHeight newCanvas blob)
  define E where "E = (scale - 3 / 10) * (100 / 3)"
  define E' where "E' = (scale * (9 / 10) - 3 / 10) * (100 / 3)"
  have "E' \<le> E - 1" using 2(1) by (simp add: E_def E'_def field_simps)
  then have "\<lceil>E'\<rceil> \<le> \<lceil>E - 1\<rceil>" by (rule ceiling_mono)
  then have "\<lceil>E'\<rceil> \<le> \<lceil>E\<rceil> - 1" by simp
  moreover have "0 < E" using 2(1) by (simp add: E_def)
  then have "0 < \<lceil>E\<rceil>" by (simp only: zero_less_ceiling)
  ultimately have "nat \<lceil>E'\<rceil> < nat \<lceil>E\<rceil>" by linarith
  then show ?case by (simp add: E_def E'_def)
qed

declare resizeLoop.simps [simp del]

definition compressByResizing ::
  "('px, 'd) browser \<Rightarrow> 'px canvas \<Rightarrow> string \<Rightarrow> nat \<Rightarrow> rat \<Rightarrow> error + 'd blob option" where
  "compressByResizing b canvas format targetSize quality =
     resizeLoop b format targetSize quality canvas (9 / 10)"

text \<open>
  \<^verbatim>\<open>iterateCompression(canvas, format, targetSize, initialQuality)\<close>. The result is the
  blob the promise resolves with (\<open>None\<close> for \<^verbatim>\<open>null\<close>), or the exception.
\<close>

definition iterateCompression ::
  "('px, 'd) browser \<Rightarrow> 'px canvas \<Rightarrow> string \<Rightarrow> nat \<Rightarrow> rat \<Rightarrow> error + 'd blob option" where
  "iterateCompression b canvas format targetSize initialQuality =
     (case canvasToBlob b canvas format initialQuality of
        None \<Rightarrow> Inl NullBlob
      | Some blob \<Rightarrow>
          if blob_size blob \<le> targetSize then Inr (Some blob)
          else
            case searchQuality b canvas format targetSize
                   \<lparr>minQuality = 1 / 10, maxQuality = initialQuality, bestBlob = blob,
                    bestQuality = initialQuality, iterations = 0\<rparr> of
              (s, Some e) \<Rightarrow> Inl e
            | (s, None) \<Rightarrow>
                if blob_size (bestBlob s) > targetSize
                then compressByResizing b canvas format targetSize (bestQuality s)
                else Inr (Some (bestBlob s)))"

subsection \<open>One file, and a batch\<close>

text \<open>
  The options of \<^verbatim>\<open>compressImage\<close>, with the defaults of its destructuring filled in
  by the caller (\<open>quality = 0.8\<close>, no maxima, \<open>maxFileSize = 0\<close>, the ratio kept).
  \<open>opt_maxFileSize\<close> is in KiB.
\<close>

record compress_options =
  opt_quality :: rat
  opt_maxWidth :: "rat option"
  opt_maxHeight :: "rat option"
  opt_maxFileSize :: nat
  opt_keepAspectRatio :: bool

text \<open>The object \<^verbatim>\<open>compressImage\<close> returns, without the formatted \<^verbatim>\<open>compressionRatio\<close>.\<close>

record 'd compress_result =
  cr_blob :: "'d blob"
  cr_filename :: string
  cr_type :: string
  cr_originalSize :: nat
  cr_newSize :: nat
  cr_originalWidth :: nat
  cr_originalHeight :: nat
  cr_newWidth :: int
  cr_newHeight :: int

text \<open>
  \<^verbatim>\<open>compressImage(file, options)\<close>. The first component of the result is not in the
  source: it lists the files handed to the decoder (\<^verbatim>\<open>createImageElement\<close>) during the
  call. Every exception is caught and thrown again under the prefix of the compressor.
\<close>

definition compressImage ::
  "('px, 'd) browser \<Rightarrow> input_file \<Rightarrow> compress_options
     \<Rightarrow> input_file list \<times> (error + 'd compress_result)" where
  "compressImage b file options =
     (case validateFile file of
        Inl e \<Rightarrow> ([], Inl (CompressFailed e))
      | Inr ok \<Rightarrow>
          (case createImageElement b file of
             None \<Rightarrow> ([file], Inl (CompressFailed ImageLoadFailed))
           | Some img \<Rightarrow>
               let d = calculateResizedDimensions (naturalWidth img) (naturalHeight img)
                         (opt_maxWidth options) (opt_maxHeight options)
                         (opt_keepAspectRatio options);
                   canvas = drawImageToCanvas b (pixels img) (width d) (height d)
               in case canvasToBlob b canvas (ftype file) (opt_quality options) of
                    None \<Rightarrow> ([file], Inl (CompressFailed NullBlob))
                  | Some blob \<Rightarrow>
                      (case (if opt_maxFileSize options > 0
                                \<and> blob_size blob > opt_maxFileSize options * 1024
                             then iterateCompression b canvas (ftype file)
                                    (opt_maxFileSize options * 1024) (opt_quality options)
                             else Inr (Some blob)) of
                         Inl e \<Rightarrow> ([file], Inl (CompressFailed e))
                       | Inr None \<Rightarrow> ([file], Inl (CompressFailed NullBlob))
                       | Inr (Some blob') \<Rightarrow>
                           ([file],
                            Inr \<lparr>cr_blob = blob',
                                 cr_filename = generateFileName (name file) (ftype file) ''_compressed'',
                                 cr_type = ftype file,
                                 cr_originalSize = fsize file,
                                 cr_newSize = blob_size blob',
                                 cr_originalWidth = naturalWidth img,
                                 cr_originalHeight = naturalHeight img,
                                 cr_newWidth = width d,
                                 cr_newHeight = height d\<rparr>))))"

text \<open>An entry of the \<^verbatim>\<open>errors\<close> list: \<^verbatim>\<open>{ file: files[i].name, error: error.message }\<close>.\<close>

record error_entry =
  err_file :: string
  err_error :: error

record 'r batch_outcome =
  results :: "'r list"
  errors :: "error_entry list"
  total :: nat
  success :: nat
  failed :: nat

text \<open>
  The loop \<^verbatim>\<open>for (let i = 0; i < files.length; i++) { try { ... } catch { ... } }\<close> that
  \<^verbatim>\<open>compressImages\<close> and \<^verbatim>\<open>convertImages\<close> share word for word, over the files still to
  process and the two lists built so far. \<open>item\<close> is the call in the \<^verbatim>\<open>try\<close> block.
  The progress display (\<^verbatim>\<open>updateProgress\<close>) only writes to the page and is left out.
\<close>

fun batchLoop ::
  "(input_file \<Rightarrow> error + 'r) \<Rightarrow> input_file list \<Rightarrow> 'r list \<times> error_entry list
     \<Rightarrow> 'r list \<times> error_entry list" where
  "batchLoop item [] acc = acc"
| "batchLoop item (f # fs) (rs, es) =
     (case item f of
        Inr result \<Rightarrow> batchLoop item fs (rs @ [result], es)
      | Inl e \<Rightarrow> batchLoop item fs (rs, es @ [\<lparr>err_file = name f, err_error = e\<rparr>]))"

definition batchOutcome :: "input_file list \<Rightarrow> 'r list \<times> error_entry list \<Rightarrow> 'r batch_outcome" where
  "batchOutcome files acc =
     \<lparr>results = fst acc, errors = snd acc, total = length files,
      success = length (fst acc), failed = length (snd acc)\<rparr>"

definition compressImages ::
  "('px, 'd) browser \<Rightarrow> input_file list \<Rightarrow> compress_options \<Rightarrow> 'd compress_result batch_outcome" where
  "compressImages b files options =
     batchOutcome files (batchLoop (\<lambda>f. snd (compressImage b f options)) files ([], []))"

section \<open>ImageConverter\<close>

text \<open>The default quality of a target format: \<^verbatim>\<open>this.supportedFormats[targetFormat]?.quality || 0.85\<close>.\<close>

definition defaultQuality :: "string \<Rightarrow> rat" where
  "defaultQuality targetFormat =
     (case map_of [(''image/jpeg'', 85 / 100), (''image/png'', 1), (''image/webp'', 85 / 100),
                   (''image/avif'', 85 / 100)] targetFormat of
        Some q \<Rightarrow> q
      | None \<Rightarrow> 85 / 100)"

text \<open>The options of \<^verbatim>\<open>convertImage\<close>; \<open>None\<close> is a quality left \<^verbatim>\<open>undefined\<close>.\<close>

record convert_options =
  cv_maxWidth :: "rat option"
  cv_maxHeight :: "rat option"
  cv_quality :: "rat option"
  cv_keepAspectRatio :: bool

record 'd convert_result =
  cv_blob :: "'d blob"
  cv_filename :: string
  cv_type :: string
  cv_originalSize :: nat
  cv_newSize :: nat
  cv_width :: int
  cv_height :: int

text \<open>\<^verbatim>\<open>convertImage(file, targetFormat, options)\<close>, with the decoder's log as above.\<close>

definition convertImage ::
  "('px, 'd) browser \<Rightarrow> input_file \<Rightarrow> string \<Rightarrow> convert_options
     \<Rightarrow> input_file list \<times> (error + 'd convert_result)" where
  "convertImage b file targetFormat options =
     (case validateFile file of
        Inl e \<Rightarrow> ([], Inl (ConvertFailed e))
      | Inr ok \<Rightarrow>
          (case createImageElement b file of
             None \<Rightarrow> ([file], Inl (ConvertFailed ImageLoadFailed))
           | Some img \<Rightarrow>
               let quality = (case cv_quality options of
                                Some q \<Rightarrow> q
                              | None \<Rightarrow> defaultQuality targetFormat);
                   d = calculateResizedDimensions (naturalWidth img) (naturalHeight img)
                         (cv_maxWidth options) (cv_maxHeight options)
                         (cv_keepAspectRatio options);
                   canvas = drawImageToCanvas b (pixels img) (width d) (height d)
               in case canvasToBlob b canvas targetFormat quality of
                    None \<Rightarrow> ([file], Inl (ConvertFailed NullBlob))
                  | Some blob \<Rightarrow>
                      ([file],
                       Inr \<lparr>cv_blob = blob,
                            cv_filename = generateFileName (name file) targetFormat ''_converted'',
                            cv_type = targetFormat,
                            cv_originalSize = fsize file,
                            cv_newSize = blob_size blob,
                            cv_width = width d,
                            cv_height = height d\<rparr>)))"

definition convertImages ::
  "('px, 'd) browser \<Rightarrow> input_file list \<Rightarrow> string \<Rightarrow> convert_options
     \<Rightarrow> 'd convert_result batch_outcome" where
  "convertImages b files targetFormat options =
     batchOutcome files
       (batchLoop (\<lambda>f. snd (convertImage b f targetFormat options)) files ([], []))"


section \<open>ImageCropper\<close>

text \<open>The crop box, in the coordinates of the display canvas.\<close>

record crop_box =
  box_x :: rat
  box_y :: rat
  box_width :: rat
  box_height :: rat

text \<open>
  The fields of the cropper the functions below read or write: the natural size of
  \<^verbatim>\<open>originalImage\<close>, the size of \<^verbatim>\<open>cropCanvas\<close>, \<^verbatim>\<open>cropBox\<close> and \<^verbatim>\<open>aspectRatio\<close>.
\<close>

record cropper =
  imageWidth :: nat
  imageHeight :: nat
  canvasWidth :: int
  canvasHeight :: int
  cropBox :: crop_box
  aspectRatio :: "string option"

text \<open>\<^verbatim>\<open>initCropBox()\<close>: the box covers the middle 80 percent of the canvas.\<close>

definition initCropBox :: "cropper \<Rightarrow> cropper" where
  "initCropBox c =
     c\<lparr>cropBox :=
         \<lparr>box_x = of_int (canvasWidth c) * (1 / 10),
          box_y = of_int (canvasHeight c) * (1 / 10),
          box_width = of_int (canvasWidth c) * (8 / 10),
          box_height = of_int (canvasHeight c) * (8 / 10)\<rparr>\<rparr>"

text \<open>
  \<^verbatim>\<open>initCrop(file)\<close>: the canvas takes the size of the image clamped to 600 by 400, and
  the box is initialised. Drawing and event binding leave the fields unchanged.
\<close>

definition initCrop :: "('px, 'd) browser \<Rightarrow> input_file \<Rightarrow> error + cropper" where
  "initCrop b file =
     (case validateFile file of
        Inl e \<Rightarrow> Inl (CropInitFailed e)
      | Inr ok \<Rightarrow>
          (case createImageElement b file of
             None \<Rightarrow> Inl (CropInitFailed ImageLoadFailed)
           | Some img \<Rightarrow>
               let d = calculateResizedDimensions (naturalWidth img) (naturalHeight img)
                         (Some 600) (Some 400) True
               in Inr (initCropBox
                         \<lparr>imageWidth = naturalWidth img, imageHeight = naturalHeight img,
                          canvasWidth = width d, canvasHeight = height d,
                          cropBox = \<lparr>box_x = 0, box_y = 0, box_width = 0, box_height = 0\<rparr>,
                          aspectRatio = None\<rparr>)))"

text \<open>\<^verbatim>\<open>moveCropBox(deltaX, deltaY)\<close>: a move that would leave the canvas is dropped, per axis.\<close>

definition moveCropBox :: "rat \<Rightarrow> rat \<Rightarrow> cropper \<Rightarrow> cropper" where
  "moveCropBox deltaX deltaY c =
     (let newX = box_x (cropBox c) + deltaX;
          newY = box_y (cropBox c) + deltaY;
          c1 = (if newX \<ge> 0 \<and> newX + box_width (cropBox c) \<le> of_int (canvasWidth c)
                then c\<lparr>cropBox := (cropBox c)\<lparr>box_x := newX\<rparr>\<rparr> else c);
          c2 = (if newY \<ge> 0 \<and> newY + box_height (cropBox c1) \<le> of_int (canvasHeight c1)
                then c1\<lparr>cropBox := (cropBox c1)\<lparr>box_y := newY\<rparr>\<rparr> else c1)
      in c2)"

text \<open>
  \<^verbatim>\<open>setAspectRatio(ratio)\<close>: for one of the four named ratios the height of the box becomes
  its width divided by the ratio.
\<close>

definition setAspectRatio :: "string \<Rightarrow> cropper \<Rightarrow> cropper" where
  "setAspectRatio ratio c =
     (if ratio = ''free'' then c\<lparr>aspectRatio := None\<rparr>
      else
        let c1 = c\<lparr>aspectRatio := Some ratio\<rparr> in
        case map_of [(''1:1'', 1), (''4:3'', 4 / 3), (''16:9'', 16 / 9), (''3:2'', 3 / 2)] ratio of
          Some targetRatio \<Rightarrow>
            c1\<lparr>cropBox := (cropBox c1)\<lparr>box_height := box_width (cropBox c1) / targetRatio\<rparr>\<rparr>
        | None \<Rightarrow> c1)"

text \<open>\<^verbatim>\<open>selectAll()\<close>.\<close>

definition selectAll :: "cropper \<Rightarrow> cropper" where
  "selectAll c =
     c\<lparr>cropBox := \<lparr>box_x = 0, box_y = 0, box_width = of_int (canvasWidth c),
                   box_height = of_int (canvasHeight c)\<rparr>\<rparr>"

text \<open>
  The \<^verbatim>\<open>change\<close> handler of the four number inputs: the field named by \<open>id\<close> takes the
  parsed value as it is.
\<close>

definition cropInputChanged :: "string \<Rightarrow> int \<Rightarrow> cropper \<Rightarrow> cropper" where
  "cropInputChanged ident v c =
     (if ident = ''cropX'' then c\<lparr>cropBox := (cropBox c)\<lparr>box_x := of_int v\<rparr>\<rparr>
      else if ident = ''cropY'' then c\<lparr>cropBox := (cropBox c)\<lparr>box_y := of_int v\<rparr>\<rparr>
      else if ident = ''cropWidth'' then c\<lparr>cropBox := (cropBox c)\<lparr>box_width := of_int v\<rparr>\<rparr>
      else if ident = ''cropHeight'' then c\<lparr>cropBox := (cropBox c)\<lparr>box_height := of_int v\<rparr>\<rparr>
      else c)"

text \<open>The region of the original image that \<^verbatim>\<open>applyCrop\<close> computes and draws.\<close>

record crop_region =
  cropX :: int
  cropY :: int
  cropWidth :: int
  cropHeight :: int

definition cropRegion :: "cropper \<Rightarrow> crop_region" where
  "cropRegion c =
     (let scaleX = of_nat (imageWidth c) / of_int (canvasWidth c);
          scaleY = of_nat (imageHeight c) / of_int (canvasHeight c)
      in \<lparr>cropX = Math_round (box_x (cropBox c) * scaleX),
          cropY = Math_round (box_y (cropBox c) * scaleY),
          cropWidth = Math_round (box_width (cropBox c) * scaleX),
          cropHeight = Math_round (box_height (cropBox c) * scaleY)\<rparr>)"

text \<open>
  \<^verbatim>\<open>applyCrop()\<close> on an initialised cropper: the region is drawn into a canvas of its
  own size and encoded; the result carries the blob and that size.
\<close>

definition applyCrop ::
  "('px, 'd) browser \<Rightarrow> 'px \<Rightarrow> string \<Rightarrow> cropper \<Rightarrow> 'd blob option \<times> int \<times> int" where
  "applyCrop b original format c =
     (let r = cropRegion c;
          canvas = \<lparr>width = cropWidth r, height = cropHeight r,
                    bitmap = drawImageRegion b original (cropX r) (cropY r) (cropWidth r)
                               (cropHeight r) (cropWidth r) (cropHeight r)\<rparr>
      in (canvasToBlob b canvas format (85 / 100), cropWidth r, cropHeight r))"

text \<open>The box lies in the display canvas; the region lies in the original image.\<close>

definition boxInCanvas :: "cropper \<Rightarrow> bool" where
  "boxInCanvas c \<longleftrightarrow>
     0 \<le> box_x (cropBox c) \<and> 0 \<le> box_y (cropBox c)
     \<and> 0 \<le> box_width (cropBox c) \<and> 0 \<le> box_height (cropBox c)
     \<and> box_x (cropBox c) + box_width (cropBox c) \<le> of_int (canvasWidth c)
     \<and> box_y (cropBox c) + box_height (cropBox c) \<le> of_int (canvasHeight c)"

definition regionInImage :: "cropper \<Rightarrow> crop_region \<Rightarrow> bool" where
  "regionInImage c r \<longleftrightarrow>
     0 \<le> cropX r \<and> 0 \<le> cropY r
     \<and> cropX r + cropWidth r \<le> int (imageWidth c)
     \<and> cropY r + cropHeight r \<le> int (imageHeight c)"

section \<open>WatermarkProcessor\<close>

text \<open>
  \<^verbatim>\<open>calculatePosition(canvasWidth, canvasHeight, watermarkWidth, watermarkHeight, position,
  padding)\<close>: the point the context is translated to before the watermark is drawn.
\<close>

definition calculatePosition :: "rat \<Rightarrow> rat \<Rightarrow> rat \<Rightarrow> rat \<Rightarrow> string \<Rightarrow> rat \<Rightarrow> rat \<times> rat" where
  "calculatePosition cw ch watermarkWidth watermarkHeight position padding =
     (if position = ''top-left'' then (padding, padding + watermarkHeight)
      else if position = ''top-right'' then (cw - watermarkWidth - padding, padding + watermarkHeight)
      else if position = ''bottom-left'' then (padding, ch - padding)
      else if position = ''bottom-right'' then (cw - watermarkWidth - padding, ch - padding)
      else if position = ''center'' then ((cw - watermarkWidth) / 2, (ch + watermarkHeight) / 2)
      else (cw - watermarkWidth - padding, ch - padding))"

definition anchors :: "string list" where
  "anchors = [''top-left'', ''top-right'', ''bottom-left'', ''bottom-right'', ''center'']"

text \<open>
  The size \<^verbatim>\<open>addImageWatermark\<close> gives the watermark image: its longer side is at most a
  quarter of the shorter side of the canvas.
\<close>

definition imageWatermarkSize :: "rat \<Rightarrow> rat \<Rightarrow> nat \<Rightarrow> nat \<Rightarrow> rat \<times> rat" where
  "imageWatermarkSize cw ch markWidth markHeight =
     (let maxWatermarkSize = min cw ch / 4;
          watermarkAspectRatio = of_nat markWidth / of_nat markHeight
      in if watermarkAspectRatio > 1
         then (let watermarkWidth = min maxWatermarkSize (of_nat markWidth)
               in (watermarkWidth, watermarkWidth / watermarkAspectRatio))
         else (let watermarkHeight = min maxWatermarkSize (of_nat markHeight)
               in (watermarkHeight * watermarkAspectRatio, watermarkHeight)))"

text \<open>
  What the two draw calls cover when the rotation is zero, as \<open>(left, top, right, bottom)\<close>.
  \<^verbatim>\<open>ctx.fillText(text, 0, 0)\<close> after \<^verbatim>\<open>ctx.translate(x, y)\<close> writes the text on the
  baseline \<open>y\<close>, from \<open>x\<close> to the right and upwards; the source takes the font size for
  the height of the text. \<^verbatim>\<open>ctx.drawImage(img, 0, 0, w, h)\<close> after the same translation puts
  the top left corner of the image at \<open>(x, y)\<close>.
\<close>

definition textBox :: "rat \<times> rat \<Rightarrow> rat \<Rightarrow> rat \<Rightarrow> rat \<times> rat \<times> rat \<times> rat" where
  "textBox origin textWidth textHeight =
     (fst origin, snd origin - textHeight, fst origin + textWidth, snd origin)"

definition imageBox :: "rat \<times> rat \<Rightarrow> rat \<Rightarrow> rat \<Rightarrow> rat \<times> rat \<times> rat \<times> rat" where
  "imageBox origin w h = (fst origin, snd origin, fst origin + w, snd origin + h)"

fun withinCanvas :: "rat \<Rightarrow> rat \<Rightarrow> rat \<times> rat \<times> rat \<times> rat \<Rightarrow> bool" where
  "withinCanvas cw ch (x0, y0, x1, y1) \<longleftrightarrow> 0 \<le> x0 \<and> 0 \<le> y0 \<and> x1 \<le> cw \<and> y1 \<le> ch"

section \<open>GIFProcessor\<close>

text \<open>How a promise ends: it resolves, it rejects, or it never settles.\<close>

datatype 'a promise = Resolved 'a | Rejected error | Pending

text \<open>The decimal digits of a number, for \<^verbatim>\<open>`frame_${i + 1}.png`\<close>.\<close>

fun decimal :: "nat \<Rightarrow> string" where
  "decimal n =
     (if n < 10 then [char_of (48 + n)]
      else decimal (n div 10) @ [char_of (48 + n mod 10)])"

text \<open>\<^verbatim>\<open>Math.ceil(img.naturalHeight / img.naturalWidth)\<close>.\<close>

definition frameCount :: "nat \<Rightarrow> nat \<Rightarrow> int" where
  "frameCount naturalW naturalH = Math_ceil (of_nat naturalH / of_nat naturalW)"

record 'd gif_frame =
  gf_blob :: "'d blob option"
  gf_filename :: string
  gf_frame :: nat

text \<open>
  \<^verbatim>\<open>extractFrames(file, options)\<close>. Frame \<open>i\<close> is the square of side \<^verbatim>\<open>naturalWidth\<close> at
  height \<open>i * naturalWidth\<close>. The promise resolves in the callback that makes the list
  \<^verbatim>\<open>frameCount\<close> long, so with no frame to extract it never settles; with a width of
  zero the count is \<^verbatim>\<open>Infinity\<close> or \<^verbatim>\<open>NaN\<close> and it never settles either. The callbacks
  are taken to run in the order of the calls.
\<close>

definition extractFrames ::
  "('px, 'd) browser \<Rightarrow> input_file \<Rightarrow> rat \<Rightarrow> 'd gif_frame list promise" where
  "extractFrames b file quality =
     (case createImageElement b file of
        None \<Rightarrow> Rejected GifLoadFailed
      | Some img \<Rightarrow>
          if naturalWidth img = 0 \<or> frameCount (naturalWidth img) (naturalHeight img) \<le> 0
          then Pending
          else Resolved
                 (map (\<lambda>i. \<lparr>gf_blob =
                               canvasToBlob b
                                 \<lparr>width = int (naturalWidth img), height = int (naturalWidth img),
                                  bitmap = drawImageRegion b (pixels img) 0
                                             (int (i * naturalWidth img))
                                             (int (naturalWidth img)) (int (naturalWidth img))
                                             (int (naturalWidth img)) (int (naturalWidth img))\<rparr>
                                 ''image/png'' quality,
                             gf_filename = ''frame_'' @ decimal (i + 1) @ ''.png'',
                             gf_frame = i + 1\<rparr>)
                    [0 ..< nat (frameCount (naturalWidth img) (naturalHeight img))]))"

record gif_info =
  gi_width :: nat
  gi_height :: nat
  gi_frameCount :: int
  gi_totalHeight :: nat
  gi_fileSize :: nat
  gi_type :: string

text \<open>\<^verbatim>\<open>getGIFInfo(file)\<close>; the count is only meaningful for a width above zero.\<close>

definition getGIFInfo :: "('px, 'd) browser \<Rightarrow> input_file \<Rightarrow> gif_info promise" where
  "getGIFInfo b file =
     (case createImageElement b file of
        None \<Rightarrow> Rejected GifLoadFailed
      | Some img \<Rightarrow>
          Resolved \<lparr>gi_width = naturalWidth img, gi_height = naturalWidth img,
                    gi_frameCount = frameCount (naturalWidth img) (naturalHeight img),
                    gi_totalHeight = naturalHeight img, gi_fileSize = fsize file,
                    gi_type = ftype file\<rparr>)"

section \<open>Sample browsers\<close>

text \<open>
  Concrete browsers on which the model is run. \<open>testBrowser W H bytes\<close> decodes every file
  to an image of \<open>W\<close> by \<open>H\<close> pixels and encodes a canvas of \<open>w\<close> by \<open>h\<close> pixels at quality
  \<open>q\<close> to a blob of \<open>bytes w h q\<close> bytes; as in every browser, a canvas without pixels
  encodes to \<^verbatim>\<open>null\<close>. The blob records the canvas size and the quality it was made from.
\<close>

definition testBrowser ::
  "nat \<Rightarrow> nat \<Rightarrow> (int \<Rightarrow> int \<Rightarrow> rat \<Rightarrow> nat) \<Rightarrow> (unit, int \<times> int \<times> rat) browser" where
  "testBrowser W H bytes =
     \<lparr>createImageElement = (\<lambda>f. Some \<lparr>naturalWidth = W, naturalHeight = H, pixels = ()\<rparr>),
      drawImage = (\<lambda>p w h. p),
      drawImageAt = (\<lambda>p. p),
      drawImageRegion = (\<lambda>p sx sy sw sh dw dh. p),
      toBlob = (\<lambda>c t q. if width c \<le> 0 \<or> height c \<le> 0 then None
                         else Some \<lparr>blob_size = bytes (width c) (height c) q,
                                    blob_data = (width c, height c, q)\<rparr>)\<rparr>"

text \<open>
  An encoder whose output grows with the quality only: 100 bytes for each quarter of the
  quality scale that is begun.
\<close>

definition bytesByQuality :: "int \<Rightarrow> int \<Rightarrow> rat \<Rightarrow> nat" where
  "bytesByQuality w h q = 100 * nat \<lceil>q * 4\<rceil>"

text \<open>An encoder whose output is one byte per pixel, whatever the quality.\<close>

definition bytesByArea :: "int \<Rightarrow> int \<Rightarrow> rat \<Rightarrow> nat" where
  "bytesByArea w h q = nat (w * h)"

definition blankCanvas :: "int \<Rightarrow> int \<Rightarrow> unit canvas" where
  "blankCanvas w h = \<lparr>width = w, height = h, bitmap = ()\<rparr>"

definition pngFile :: "string \<Rightarrow> nat \<Rightarrow> input_file" where
  "pngFile n bytes = \<lparr>name = n, ftype = ''image/png'', fsize = bytes\<rparr>"

definition gifFile :: "string \<Rightarrow> nat \<Rightarrow> input_file" where
  "gifFile n bytes = \<lparr>name = n, ftype = ''image/gif'', fsize = bytes\<rparr>"

section \<open>Properties of the resize arithmetic\<close>

lemma Math_round_eq_round: "Math_round x = round x"
  by (simp add: Math_round_def round_def)

lemma Math_round_of_int: "Math_round (of_int n) = n"
  by (simp add: Math_round_eq_round)

lemma Math_round_of_nat: "Math_round (of_nat n) = int n"
  using Math_round_of_int [of "int n"] by simp

lemma Math_round_mono: "x \<le> y \<Longrightarrow> Math_round x \<le> Math_round y"
  by (simp add: Math_round_eq_round round_mono)

lemma Math_round_le_int: "x \<le> of_int n \<Longrightarrow> Math_round x \<le> n"
  using Math_round_mono [of x "of_int n"] by (simp add: Math_round_of_int)

lemma Math_round_le_nat: "x \<le> of_nat n \<Longrightarrow> Math_round x \<le> int n"
  using Math_round_le_int [of x "int n"] by simp

lemma Math_round_near: "\<bar>of_int (Math_round x) - x\<bar> \<le> 1 / 2"
  unfolding Math_round_eq_round by (rule of_int_round_abs_le)

lemma clamp_width_height:
  fixes W H :: nat and m :: rat
  assumes "0 < W" "0 < H" "m < of_nat W"
  shows "m / (of_nat W / of_nat H) < of_nat H"
  using assms by (simp add: field_simps)

lemma clamp_height_width:
  fixes W H :: nat and m h :: rat
  assumes "0 < W" "0 < H" "m < h"
  shows "m * (of_nat W / of_nat H) < h * (of_nat W / of_nat H)"
  using assms by (simp add: field_simps)

lemma two_pass_raw:
  fixes W H :: nat
  assumes W: "0 < W" and H: "0 < H" and both: "truthy mw" "truthy mh"
  shows "\<exists>w h. calculateResizedDimensions W H mw mh True
                 = \<lparr>width = Math_round w, height = Math_round h\<rparr>
           \<and> w \<le> of_nat W \<and> h \<le> of_nat H \<and> w \<le> num mw \<and> h \<le> num mh
           \<and> w * of_nat H = h * of_nat W
           \<and> (w = of_nat W \<and> h = of_nat H \<or> w = num mw \<or> h = num mh)"
proof -
  define r :: rat where "r = of_nat W / of_nat H"
  define w1 where "w1 = (if of_nat W > num mw then num mw else of_nat W)"
  define h1 where "h1 = (if of_nat W > num mw then num mw / r else of_nat H)"
  define w2 where "w2 = (if h1 > num mh then num mh * r else w1)"
  define h2 where "h2 = (if h1 > num mh then num mh else h1)"
  have r: "0 < r" using W H by (simp add: r_def)
  have Hr: "of_nat H * r = of_nat W" using H by (simp add: r_def)
  have eq: "calculateResizedDimensions W H mw mh True
              = \<lparr>width = Math_round w2, height = Math_round h2\<rparr>"
    using both
    by (simp add: calculateResizedDimensions_def Let_def w1_def h1_def w2_def h2_def r_def)
  have p1: "w1 = h1 * r" using r Hr by (simp add: w1_def h1_def)
  have w1: "w1 \<le> of_nat W" "w1 \<le> num mw" by (simp_all add: w1_def)
  have h1: "h1 \<le> of_nat H"
  proof (cases "of_nat W > num mw")
    case True
    then have "num mw / r < of_nat H"
      using clamp_width_height [OF W H, of "num mw"] by (simp add: r_def)
    with True show ?thesis by (simp add: h1_def)
  next
    case False
    then show ?thesis by (simp add: h1_def)
  qed
  have p2: "w2 = h2 * r" using p1 by (simp add: w2_def h2_def)
  have h2: "h2 \<le> h1" "h2 \<le> num mh" by (simp_all add: h2_def)
  have "h2 * r \<le> h1 * r" using h2(1) r by simp
  then have w2: "w2 \<le> w1" using p1 p2 by simp
  have propo: "w2 * of_nat H = h2 * of_nat W"
    using p2 Hr by (simp add: mult.commute mult.left_commute)
  have which: "w2 = of_nat W \<and> h2 = of_nat H \<or> w2 = num mw \<or> h2 = num mh"
    by (simp add: w1_def h1_def w2_def h2_def)
  show ?thesis
    using eq w2 w1 h2 h1 propo which by (intro exI [of _ w2] exI [of _ h2]) auto
qed


lemma floor_rat_numeral: "\<lfloor>(numeral a :: rat) / numeral b\<rfloor> = numeral a div numeral b"
  using floor_divide_of_int_eq [of "numeral a" "numeral b", where ?'a = rat] by simp

lemma ceiling_rat_numeral:
  "\<lceil>(numeral a :: rat) / numeral b\<rceil> = - ((- numeral a) div numeral b)"
  using ceiling_divide_eq_div [of "numeral a" "numeral b", where ?'a = rat] by simp

text \<open>
  C3. With the aspect ratio kept and both maxima set to whole, non-zero pixel counts, the
  width-first, height-second clamp returns a size that exceeds neither maximum, and one
  side of the result is within one pixel of the value the original ratio gives for the
  other side (the proof gives half a pixel). A 2000 by 1000 image with both maxima at
  1000 becomes 1000 by 500. The original sides are positive.
\<close>

theorem two_pass_clamp:
  fixes W H :: nat and mw mh :: int
  assumes "0 < W" and "0 < H" and "mw \<noteq> 0" and "mh \<noteq> 0"
  shows "(let d = calculateResizedDimensions W H (Some (of_int mw)) (Some (of_int mh)) True in
            width d \<le> mw \<and> height d \<le> mh
            \<and> (\<bar>of_int (height d) - of_int (width d) * (of_nat H / of_nat W)\<bar> \<le> (1::rat)
               \<or> \<bar>of_int (width d) - of_int (height d) * (of_nat W / of_nat H)\<bar> \<le> (1::rat)))
         \<and> calculateResizedDimensions 2000 1000 (Some 1000) (Some 1000) True
             = \<lparr>width = 1000, height = 500\<rparr>"
proof -
  let ?d = "calculateResizedDimensions W H (Some (of_int mw)) (Some (of_int mh)) True"
  have t: "truthy (Some (of_int mw))" "truthy (Some (of_int mh))"
    using assms(3,4) by simp_all
  from two_pass_raw [OF assms(1,2) t] obtain w h :: rat where
    d: "?d = \<lparr>width = Math_round w, height = Math_round h\<rparr>"
    and le: "w \<le> of_int mw" "h \<le> of_int mh"
    and propo: "w * of_nat H = h * of_nat W"
    and which: "w = of_nat W \<and> h = of_nat H \<or> w = of_int mw \<or> h = of_int mh"
    by auto
  have bound: "width ?d \<le> mw" "height ?d \<le> mh"
    using le by (simp_all add: d Math_round_le_int)
  have hw: "h = w * (of_nat H / of_nat W)" using propo assms(1) by (simp add: field_simps)
  have wh: "w = h * (of_nat W / of_nat H)" using propo assms(2) by (simp add: field_simps)
  have near: "\<bar>of_int (height ?d) - of_int (width ?d) * (of_nat H / of_nat W)\<bar> \<le> (1::rat)
               \<or> \<bar>of_int (width ?d) - of_int (height ?d) * (of_nat W / of_nat H)\<bar> \<le> (1::rat)"
  proof -
    consider "w = of_nat W \<and> h = of_nat H" | "w = of_int mw" | "h = of_int mh"
      using which by blast
    then show ?thesis
    proof cases
      case 1
      then have "width ?d = int W" "height ?d = int H"
        by (simp_all add: d Math_round_of_nat)
      then show ?thesis using assms(1) by simp
    next
      case 2
      then have "of_int (width ?d) = w" by (simp add: d Math_round_of_int)
      moreover have "\<bar>of_int (height ?d) - h\<bar> \<le> 1 / 2"
        using Math_round_near [of h] by (simp add: d)
      ultimately show ?thesis using hw by simp
    next
      case 3
      then have "of_int (height ?d) = h" by (simp add: d Math_round_of_int)
      moreover have "\<bar>of_int (width ?d) - w\<bar> \<le> 1 / 2"
        using Math_round_near [of w] by (simp add: d)
      ultimately show ?thesis using wh by simp
    qed
  qed
  have scenario: "calculateResizedDimensions 2000 1000 (Some 1000) (Some 1000) True
                    = \<lparr>width = 1000, height = 500\<rparr>"
    by (simp add: calculateResizedDimensions_def Math_round_def floor_rat_numeral)
  show ?thesis using bound near scenario by (simp add: Let_def)
qed

theorem two_pass_clamp_witness:
  "(0::nat) < 1920 \<and> (0::nat) < 1080 \<and> (800::int) \<noteq> 0 \<and> (600::int) \<noteq> 0
   \<and> (let d = calculateResizedDimensions 1920 1080 (Some (of_int 800)) (Some (of_int 600)) True in
          width d \<le> 800 \<and> height d \<le> 600
          \<and> (\<bar>of_int (height d) - of_int (width d) * (of_nat 1080 / of_nat 1920)\<bar> \<le> (1::rat)
             \<or> \<bar>of_int (width d) - of_int (height d) * (of_nat 1920 / of_nat 1080)\<bar> \<le> (1::rat)))"
  using two_pass_clamp [of 1920 1080 800 600] by simp

text \<open>
  C10. Resizing never enlarges: for positive original sides, any maxima (set or not, whole
  or not) and either setting of the ratio flag, the returned width is at most the original
  width and the returned height at most the original height.
\<close>

theorem never_upscales:
  fixes W H :: nat
  assumes W: "0 < W" and H: "0 < H"
  shows "width (calculateResizedDimensions W H mw mh k) \<le> int W
         \<and> height (calculateResizedDimensions W H mw mh k) \<le> int H"
proof -
  let ?d = "calculateResizedDimensions W H mw mh k"
  define r :: rat where "r = of_nat W / of_nat H"
  have r: "0 < r" using W H by (simp add: r_def)
  have Hr: "of_nat H * r = of_nat W" using H by (simp add: r_def)
  consider (none) "\<not> truthy mw" "\<not> truthy mh"
    | (both) "k" "truthy mw" "truthy mh"
    | (onlyw) "k" "truthy mw" "\<not> truthy mh"
    | (onlyh) "k" "\<not> truthy mw" "truthy mh"
    | (free) "\<not> k" "truthy mw \<or> truthy mh"
    by blast
  then show ?thesis
  proof cases
    case none
    then show ?thesis by (simp add: calculateResizedDimensions_def)
  next
    case both
    from two_pass_raw [OF W H both(2,3)] both(1) obtain w h :: rat where
      "?d = \<lparr>width = Math_round w, height = Math_round h\<rparr>" "w \<le> of_nat W" "h \<le> of_nat H"
      by auto
    then show ?thesis by (simp add: Math_round_le_nat)
  next
    case onlyw
    have "num mw / r < of_nat H" if "num mw < of_nat W"
      using clamp_width_height [OF W H that] by (simp add: r_def)
    then show ?thesis using onlyw
      by (auto simp: calculateResizedDimensions_def Let_def r_def Math_round_of_nat
            intro!: Math_round_le_nat)
  next
    case onlyh
    have "num mh * r < of_nat W" if "num mh < of_nat H"
      using clamp_height_width [OF W H that] Hr by (simp add: r_def)
    then show ?thesis using onlyh
      by (auto simp: calculateResizedDimensions_def Let_def r_def Math_round_of_nat
            intro!: Math_round_le_nat)
  next
    case free
    then show ?thesis
      by (auto simp: calculateResizedDimensions_def Let_def Math_round_of_nat
            intro!: Math_round_le_nat)
  qed
qed

theorem never_upscales_witness:
  "(0::nat) < 640 \<and> (0::nat) < 480
   \<and> width (calculateResizedDimensions 640 480 (Some 1000) None False) \<le> int 640
   \<and> height (calculateResizedDimensions 640 480 (Some 1000) None False) \<le> int 480"
  using never_upscales [of 640 480 "Some 1000" None False] by simp


section \<open>Properties of validation\<close>

lemma validateFile_cases:
  "validateFile f = Inr True \<or> (\<exists>e. validateFile f = Inl e)"
  by (simp add: validateFile_def)

text \<open>
  C9. A file passes validation exactly when its MIME type is one of the five supported
  types and its size is at most 50 MiB, the bound included. A file that does not pass
  makes \<^verbatim>\<open>validateFile\<close> throw, and the compressor, the converter and the cropper then
  fail with that error without having handed any file to the decoder.
\<close>

theorem validateFile_accepts_iff:
  "(validateFile f = Inr True \<longleftrightarrow>
      ftype f \<in> {''image/jpeg'', ''image/png'', ''image/webp'', ''image/avif'', ''image/gif''}
      \<and> fsize f \<le> 50 * 1024 * 1024)
   \<and> (validateFile f \<noteq> Inr True \<longrightarrow>
        (\<exists>e. validateFile f = Inl e
           \<and> (\<forall>b options targetFormat options'.
                  compressImage b f options = ([], Inl (CompressFailed e))
                  \<and> convertImage b f targetFormat options' = ([], Inl (ConvertFailed e))
                  \<and> initCrop b f = Inl (CropInitFailed e))))"
proof (intro conjI impI)
  show "validateFile f = Inr True \<longleftrightarrow>
      ftype f \<in> {''image/jpeg'', ''image/png'', ''image/webp'', ''image/avif'', ''image/gif''}
      \<and> fsize f \<le> 50 * 1024 * 1024"
    by (simp add: validateFile_def supportedFormats_def maxFileSize_def)
next
  assume "validateFile f \<noteq> Inr True"
  with validateFile_cases [of f] obtain e where e: "validateFile f = Inl e" by blast
  show "\<exists>e. validateFile f = Inl e
           \<and> (\<forall>b options targetFormat options'.
                  compressImage b f options = ([], Inl (CompressFailed e))
                  \<and> convertImage b f targetFormat options' = ([], Inl (ConvertFailed e))
                  \<and> initCrop b f = Inl (CropInitFailed e))"
    using e by (simp add: compressImage_def convertImage_def initCrop_def)
qed

text \<open>At the bound; and a wrong type is reported before an oversize.\<close>

lemma validateFile_boundary:
  "validateFile (pngFile n 52428800) = Inr True"
  "validateFile (pngFile n 52428801) = Inl (FileTooLarge 52428801)"
  "validateFile \<lparr>name = n, ftype = ''image/bmp'', fsize = 10\<rparr> = Inl (UnsupportedFormat ''image/bmp'')"
  "validateFile \<lparr>name = n, ftype = ''image/bmp'', fsize = 52428801\<rparr>
     = Inl (UnsupportedFormat ''image/bmp'')"
  by (simp_all add: validateFile_def supportedFormats_def maxFileSize_def pngFile_def)

theorem validateFile_accepts_iff_witness:
  "validateFile (pngFile ''big.png'' 52428801) \<noteq> Inr True
   \<and> (\<exists>e. validateFile (pngFile ''big.png'' 52428801) = Inl e
          \<and> (\<forall>(b :: (unit, unit) browser) options targetFormat options'.
                 compressImage b (pngFile ''big.png'' 52428801) options
                   = ([], Inl (CompressFailed e))
                 \<and> convertImage b (pngFile ''big.png'' 52428801) targetFormat options'
                   = ([], Inl (ConvertFailed e))
                 \<and> initCrop b (pngFile ''big.png'' 52428801) = Inl (CropInitFailed e)))"
proof -
  have rejected: "validateFile (pngFile ''big.png'' 52428801) \<noteq> Inr True"
    by (simp add: validateFile_def supportedFormats_def maxFileSize_def pngFile_def)
  from validateFile_accepts_iff [of "pngFile ''big.png'' 52428801",
         where ?'a = unit and ?'b = unit] rejected
  show ?thesis by blast
qed

section \<open>Properties of the GIF frame count\<close>

lemma frameCount_bounds:
  assumes "0 < W"
  shows "int H \<le> frameCount W H * int W" and "(frameCount W H - 1) * int W < int H"
proof -
  have W: "(0::rat) < of_nat W" using assms by simp
  let ?q = "of_nat H / of_nat W :: rat"
  have "?q \<le> of_int (frameCount W H)"
    by (simp add: frameCount_def Math_ceil_def)
  then have "of_nat H \<le> of_int (frameCount W H) * (of_nat W :: rat)"
    using W by (simp add: field_simps)
  then have "(of_int (int H) :: rat) \<le> of_int (frameCount W H * int W)"
    by simp
  then show "int H \<le> frameCount W H * int W"
    by (simp only: of_int_le_iff)
  have "of_int (frameCount W H) - 1 < ?q"
    by (simp add: frameCount_def Math_ceil_def) linarith
  then have "(of_int (frameCount W H) - 1) * (of_nat W :: rat) < of_nat H"
    using W by (simp add: field_simps)
  then have "(of_int ((frameCount W H - 1) * int W) :: rat) < of_int (int H)"
    by simp
  then show "(frameCount W H - 1) * int W < int H"
    by (simp only: of_int_less_iff)
qed

text \<open>
  C8. For a GIF that decodes to a natural size with positive sides, the frame count is the
  ceiling of height over width: the least number of squares of side width that cover the
  height. Extraction resolves with exactly that many frames, numbered from 1, and
  \<^verbatim>\<open>getGIFInfo\<close> reports the same count. A 100 by 300 image has 3 frames.
\<close>

theorem frameCount_ceiling:
  assumes "createImageElement b f = Some img"
    and "0 < naturalWidth img" and "0 < naturalHeight img"
  shows "int (naturalHeight img) \<le> frameCount (naturalWidth img) (naturalHeight img) * int (naturalWidth img)
         \<and> (frameCount (naturalWidth img) (naturalHeight img) - 1) * int (naturalWidth img)
             < int (naturalHeight img)
         \<and> (\<exists>frames. extractFrames b f quality = Resolved frames
                \<and> int (length frames) = frameCount (naturalWidth img) (naturalHeight img)
                \<and> map gf_frame frames = [1 ..< Suc (length frames)])
         \<and> (\<exists>info. getGIFInfo b f = Resolved info
                \<and> gi_frameCount info = frameCount (naturalWidth img) (naturalHeight img))
         \<and> frameCount 100 300 = 3"
proof -
  have pos: "0 < frameCount (naturalWidth img) (naturalHeight img)"
    using assms(2,3) by (simp add: frameCount_def Math_ceil_def)
  have c: "frameCount 100 300 = 3"
    by (simp add: frameCount_def Math_ceil_def)
  have d: "\<exists>frames. extractFrames b f quality = Resolved frames
                \<and> int (length frames) = frameCount (naturalWidth img) (naturalHeight img)
                \<and> map gf_frame frames = [1 ..< Suc (length frames)]"
    using assms pos by (simp add: extractFrames_def o_def map_Suc_upt)
  have e: "\<exists>info. getGIFInfo b f = Resolved info
                \<and> gi_frameCount info = frameCount (naturalWidth img) (naturalHeight img)"
    using assms(1) by (simp add: getGIFInfo_def)
  show ?thesis
    using frameCount_bounds [OF assms(2), of "naturalHeight img"] c d e by blast
qed

theorem frameCount_ceiling_witness:
  "createImageElement (testBrowser 100 250 bytesByArea) (gifFile ''strip.gif'' 4000)
     = Some \<lparr>naturalWidth = 100, naturalHeight = 250, pixels = ()\<rparr>
   \<and> (\<exists>frames.
         extractFrames (testBrowser 100 250 bytesByArea) (gifFile ''strip.gif'' 4000) (3 / 4)
           = Resolved frames
         \<and> int (length frames) = frameCount 100 250
         \<and> map gf_frame frames = [1 ..< Suc (length frames)])
   \<and> (\<exists>info. getGIFInfo (testBrowser 100 250 bytesByArea) (gifFile ''strip.gif'' 4000)
                  = Resolved info
         \<and> gi_frameCount info = frameCount 100 250)
   \<and> frameCount 100 250 = 3"
proof -
  have three: "frameCount 100 250 = 3"
    by (simp add: frameCount_def Math_ceil_def) linarith
  have decoded:
    "createImageElement (testBrowser 100 250 bytesByArea) (gifFile ''strip.gif'' 4000)
       = Some \<lparr>naturalWidth = 100, naturalHeight = 250, pixels = ()\<rparr>"
    by (simp add: testBrowser_def)
  from frameCount_ceiling [OF decoded, of "3 / 4"] three decoded
  show ?thesis by simp
qed

section \<open>Properties of the batch loop\<close>

lemma batchLoop_lists:
  "batchLoop item fs (rs, es) =
     (rs @ map (\<lambda>f. projr (item f)) (filter (\<lambda>f. \<not> isl (item f)) fs),
      es @ map (\<lambda>f. \<lparr>err_file = name f, err_error = projl (item f)\<rparr>)
             (filter (\<lambda>f. isl (item f)) fs))"
proof (induction fs arbitrary: rs es)
  case Nil
  show ?case by simp
next
  case (Cons f fs)
  show ?case
  proof (cases "item f")
    case (Inl e)
    then show ?thesis using Cons.IH [of rs "es @ [\<lparr>err_file = name f, err_error = e\<rparr>]"]
      by simp
  next
    case (Inr r)
    then show ?thesis using Cons.IH [of "rs @ [r]" es] by simp
  qed
qed

lemma batchOutcome_lists:
  fixes item :: "input_file \<Rightarrow> error + 'r"
  defines "out \<equiv> \<lambda>files. batchOutcome files (batchLoop item files ([], []))"
  shows "results (out files) = map (\<lambda>f. projr (item f)) (filter (\<lambda>f. \<not> isl (item f)) files)"
    and "errors (out files) = map (\<lambda>f. \<lparr>err_file = name f, err_error = projl (item f)\<rparr>)
                               (filter (\<lambda>f. isl (item f)) files)"
    and "total (out files) = length files"
    and "success (out files) = length (results (out files))"
    and "failed (out files) = length (errors (out files))"
    and "success (out files) + failed (out files) = total (out files)"
proof -
  show "results (out files) = map (\<lambda>f. projr (item f)) (filter (\<lambda>f. \<not> isl (item f)) files)"
    and "errors (out files) = map (\<lambda>f. \<lparr>err_file = name f, err_error = projl (item f)\<rparr>)
                               (filter (\<lambda>f. isl (item f)) files)"
    and "total (out files) = length files"
    and "success (out files) = length (results (out files))"
    and "failed (out files) = length (errors (out files))"
    by (simp_all add: out_def batchOutcome_def batchLoop_lists)
  have "length (filter (\<lambda>f. \<not> isl (item f)) files) + length (filter (\<lambda>f. isl (item f)) files)
          = length files"
    using sum_length_filter_compl [of "\<lambda>f. isl (item f)" files] by simp
  then show "success (out files) + failed (out files) = total (out files)"
    by (simp add: out_def batchOutcome_def batchLoop_lists)
qed

text \<open>
  C5. For every batch of the compressor and of the converter, whatever succeeds and
  whatever fails: the counts add up, \<open>success + failed = total\<close>, with \<open>total\<close> the number
  of input files, and every input file is in exactly one of the two lists. The results
  are those of the files whose item call returned, in order, and the errors are those of
  the files whose item call threw, in order.
\<close>

theorem batch_invariant:
  "(let out = compressImages b files options;
        one = (\<lambda>f. snd (compressImage b f options))
    in success out + failed out = total out
       \<and> total out = length files
       \<and> length (results out) + length (errors out) = length files
       \<and> results out = map (\<lambda>f. projr (one f)) (filter (\<lambda>f. \<not> isl (one f)) files)
       \<and> errors out = map (\<lambda>f. \<lparr>err_file = name f, err_error = projl (one f)\<rparr>)
                        (filter (\<lambda>f. isl (one f)) files))
   \<and> (let out = convertImages b' files targetFormat options';
           one = (\<lambda>f. snd (convertImage b' f targetFormat options'))
       in success out + failed out = total out
          \<and> total out = length files
          \<and> length (results out) + length (errors out) = length files
          \<and> results out = map (\<lambda>f. projr (one f)) (filter (\<lambda>f. \<not> isl (one f)) files)
          \<and> errors out = map (\<lambda>f. \<lparr>err_file = name f, err_error = projl (one f)\<rparr>)
                           (filter (\<lambda>f. isl (one f)) files))"
  unfolding compressImages_def convertImages_def Let_def
  using batchOutcome_lists [where item = "\<lambda>f. snd (compressImage b f options)" and files = files]
        batchOutcome_lists [where item = "\<lambda>f. snd (convertImage b' f targetFormat options')"
                              and files = files]
  by simp


section \<open>Properties of double rounding\<close>

text \<open>
  Rounding to a double moves a positive number by at most one part in \<open>2 ^ 53\<close>, and
  \<open>double x\<close> is computed by one rounding at the scale of \<open>x\<close>.
\<close>

lemma roundEven_near: "\<bar>of_int (roundEven x) - x\<bar> \<le> 1 / 2"
proof -
  have "of_int \<lfloor>x\<rfloor> \<le> x" "x < of_int \<lfloor>x\<rfloor> + 1" by linarith+
  then show ?thesis by (auto simp: roundEven_def Let_def)
qed

lemma dbl_error:
  assumes "0 < x"
  shows "\<bar>dbl x - x\<bar> \<le> x / 2 ^ 53"
  using assms
proof (induction x rule: dbl.induct)
  case (1 x)
  consider (low) "x < 2 ^ 52" | (high) "2 ^ 53 \<le> x" | (mid) "2 ^ 52 \<le> x" "x < 2 ^ 53"
    by linarith
  then show ?case
  proof cases
    case low
    have eq: "dbl x = dbl (2 * x) / 2" using low "1.prems" by (subst dbl.simps) simp
    have "\<bar>dbl (2 * x) - 2 * x\<bar> \<le> 2 * x / 2 ^ 53"
      using "1.IH"(1) low "1.prems" by simp
    then have "\<bar>dbl (2 * x) / 2 - x\<bar> \<le> x / 2 ^ 53"
      by (simp add: abs_le_iff field_simps)
    then show ?thesis by (simp only: eq)
  next
    case high
    then have nl: "\<not> x < 2 ^ 52" by simp
    have eq: "dbl x = dbl (x / 2) * 2" using high nl "1.prems" by (subst dbl.simps) simp
    have "\<bar>dbl (x / 2) - x / 2\<bar> \<le> x / 2 / 2 ^ 53"
      using "1.IH"(2) high nl "1.prems" by simp
    then have "\<bar>dbl (x / 2) * 2 - x\<bar> \<le> x / 2 ^ 53"
      by (simp add: abs_le_iff field_simps)
    then show ?thesis by (simp only: eq)
  next
    case mid
    have eq: "dbl x = of_int (roundEven x)" using mid "1.prems" by (subst dbl.simps) simp
    have "(1 / 2 :: rat) \<le> x / 2 ^ 53" using mid(1) by simp
    with roundEven_near [of x] show ?thesis unfolding eq by linarith
  qed
qed

lemma dbl_scaled:
  assumes "2 ^ 52 \<le> x * 2 ^ k" and "x * 2 ^ k < 2 ^ 53"
  shows "dbl x = of_int (roundEven (x * 2 ^ k)) / 2 ^ k"
  using assms
proof (induction k arbitrary: x)
  case 0
  then show ?case by (subst dbl.simps) simp
next
  case (Suc k)
  have pos: "0 < x"
  proof (rule ccontr)
    assume "\<not> 0 < x"
    then have "x * 2 ^ Suc k \<le> 0" by (simp add: mult_le_0_iff)
    with Suc.prems(1) show False by simp
  qed
  have "x * 2 ^ Suc k < 2 ^ 53" by (rule Suc.prems(2))
  moreover have "x * 2 \<le> x * 2 ^ Suc k" using pos by simp
  ultimately have low: "x < 2 ^ 52" by simp
  have eq: "dbl x = dbl (2 * x) / 2" using low pos by (subst dbl.simps) simp
  have "dbl (2 * x) = of_int (roundEven (2 * x * 2 ^ k)) / 2 ^ k"
    using Suc.prems by (intro Suc.IH) (simp_all add: mult.assoc mult.left_commute)
  then show ?case by (simp add: eq mult.assoc mult.left_commute mult.commute)
qed

lemma double_nonpos: "x \<le> 0 \<Longrightarrow> double x \<le> 0"
proof -
  assume x: "x \<le> 0"
  show ?thesis
  proof (cases "x < 0")
    case True
    then have "(- x) / 2 ^ 53 \<le> - x" by (simp add: field_simps)
    moreover have "\<bar>dbl (- x) - (- x)\<bar> \<le> (- x) / 2 ^ 53" using True by (intro dbl_error) simp
    ultimately have "0 \<le> dbl (- x)" by linarith
    with True show ?thesis by (simp add: double_def)
  next
    case False
    with x have "x = 0" by simp
    then show ?thesis by (simp add: double_def dbl.simps)
  qed
qed

lemma double_error:
  assumes "0 < x"
  shows "x - x / 2 ^ 53 \<le> double x" and "double x \<le> x + x / 2 ^ 53"
proof -
  have d: "double x = dbl x" using assms by (simp add: double_def)
  have "\<bar>dbl x - x\<bar> \<le> x / 2 ^ 53" by (rule dbl_error [OF assms])
  then show "x - x / 2 ^ 53 \<le> double x" and "double x \<le> x + x / 2 ^ 53"
    unfolding d by linarith+
qed

lemma double_scaled:
  assumes "2 ^ 52 \<le> x * 2 ^ k" and "x * 2 ^ k < 2 ^ 53"
  shows "double x = of_int (roundEven (x * 2 ^ k)) / 2 ^ k"
proof -
  have "0 < x"
  proof (rule ccontr)
    assume "\<not> 0 < x"
    then have "x * 2 ^ k \<le> 0" by (simp add: mult_le_0_iff)
    with assms(1) show False by simp
  qed
  then show ?thesis using dbl_scaled [OF assms] by (simp add: double_def)
qed

lemmas double_eval =
  double_scaled [where k = 52] double_scaled [where k = 53] double_scaled [where k = 54]
  double_scaled [where k = 55] double_scaled [where k = 56] double_scaled [where k = 57]
  double_scaled [where k = 58] double_scaled [where k = 59] double_scaled [where k = 60]

text \<open>
  The doubles the program writes as \<^verbatim>\<open>0.1\<close>, \<^verbatim>\<open>0.05\<close>, \<^verbatim>\<open>0.9\<close>, \<^verbatim>\<open>0.8\<close>, \<^verbatim>\<open>0.11\<close>
  and \<^verbatim>\<open>0.5\<close>: only the last is the number written.
\<close>

lemma double_literals:
  "double (1 / 10) = 3602879701896397 / 36028797018963968"
  "double (1 / 20) = 3602879701896397 / 72057594037927936"
  "double (9 / 10) = 8106479329266893 / 9007199254740992"
  "double (4 / 5) = 3602879701896397 / 4503599627370496"
  "double (11 / 100) = 7926335344172073 / 72057594037927936"
  "double (1 / 2) = 1 / 2"
  by (simp_all add: double_eval roundEven_def Let_def floor_rat_numeral)

lemma ceiling_rat_one: "\<lceil>(1 :: rat) / numeral b\<rceil> = - ((- 1) div numeral b)"
  using ceiling_divide_eq_div [of 1 "numeral b", where ?'a = rat] by simp

lemma ulp_small: "(x :: rat) / 2 ^ 53 \<le> x / 10000000000" if "0 \<le> x"
proof -
  have "(1 :: rat) / 2 ^ 53 \<le> 1 / 10000000000" by simp
  then have "x * (1 / 2 ^ 53) \<le> x * (1 / 10000000000)" using that by (rule mult_left_mono)
  then show ?thesis by (simp only: times_divide_eq_right mult_1_right)
qed

lemma double_near:
  assumes "0 < x"
  shows "x - x / 10000000000 \<le> double x" and "double x \<le> x + x / 10000000000"
  using double_error [OF assms] ulp_small [of x] assms by linarith+


section \<open>Properties of the quality search\<close>

lemma searchQuality_best_descends:
  assumes "maxQuality s = bestQuality s"
  shows "bestQuality (fst (searchQuality b canvas format targetSize s)) \<le> bestQuality s"
  using assms
proof (induction b canvas format targetSize s rule: searchQuality.induct)
  case (1 b canvas format targetSize s)
  let ?q = "(minQuality s + maxQuality s) / 2"
  let ?s1 = "s\<lparr>iterations := Suc (iterations s)\<rparr>"
  show ?case
  proof (cases "maxQuality s - minQuality s > 1 / 20")
    case False
    then show ?thesis by (simp add: searchQuality.simps [of b canvas format targetSize s])
  next
    case True
    then have q: "?q < maxQuality s" by (simp add: field_simps)
    show ?thesis
    proof (cases "canvasToBlob b canvas format ?q")
      case None
      then show ?thesis using True
        by (simp add: searchQuality.simps [of b canvas format targetSize s] Let_def)
    next
      case (Some blob)
      show ?thesis
      proof (cases "blob_size blob \<le> targetSize")
        case fit: True
        have "bestQuality (fst (searchQuality b canvas format targetSize
                 (?s1\<lparr>bestBlob := blob, bestQuality := ?q, maxQuality := ?q\<rparr>))) \<le> ?q"
          using "1.IH"(1) [OF True refl refl Some fit] by simp
        then show ?thesis using True Some fit q "1.prems"
          by (simp add: searchQuality.simps [of b canvas format targetSize s] Let_def)
      next
        case miss: False
        have "bestQuality (fst (searchQuality b canvas format targetSize (?s1\<lparr>minQuality := ?q\<rparr>)))
                \<le> bestQuality s"
          using "1.IH"(2) [OF True refl refl Some miss] "1.prems" by simp
        then show ?thesis using True Some miss
          by (simp add: searchQuality.simps [of b canvas format targetSize s] Let_def)
      qed
    qed
  qed
qed

text \<open>
  The loop in double precision. It is left as soon as the interval is at most 0.049, each
  pass puts the rounded midpoint within \<open>10 ^ -9\<close> of the exact one, and so the loop returns
  after at most \<open>k\<close> passes from an interval of at most \<open>2 ^ k * 0.048\<close>, whatever the
  encoder answers.
\<close>

lemma search_exit:
  assumes "d \<le> 49 / 1000"
  shows "\<not> double d > double (1 / 20)"
proof (cases "0 < d")
  case True
  from double_near(2) [OF True] assms have "double d \<le> 1 / 20" by linarith
  then show ?thesis by (simp add: double_literals)
next
  case False
  then have "double d \<le> 0" by (intro double_nonpos) simp
  then show ?thesis by (simp add: double_literals)
qed

lemma midpoint_near:
  assumes "0 < lo" and "0 < hi" and "lo \<le> 2" and "hi \<le> 2"
  shows "lo / 2 + hi / 2 - 1 / 1000000000 \<le> double (double (lo + hi) / 2)"
    and "double (double (lo + hi) / 2) \<le> lo / 2 + hi / 2 + 1 / 1000000000"
    and "0 < double (double (lo + hi) / 2)"
proof -
  define s where "s = lo + hi"
  define h where "h = double s / 2"
  have s: "0 < s" "s \<le> 4" using assms by (simp_all add: s_def)
  have s1: "s - s / 10000000000 \<le> double s" "double s \<le> s + s / 10000000000"
    using double_near [OF s(1)] by simp_all
  have h: "0 < h" "h \<le> 4" "s / 2 - 4 / 10000000000 \<le> h" "h \<le> s / 2 + 4 / 10000000000"
    unfolding h_def using s s1 by linarith+
  have q: "h - h / 10000000000 \<le> double h" "double h \<le> h + h / 10000000000"
    using double_near [OF h(1)] by simp_all
  have half: "s / 2 = lo / 2 + hi / 2" by (simp add: s_def add_divide_distrib)
  have "lo / 2 + hi / 2 - 1 / 1000000000 \<le> double h"
    "double h \<le> lo / 2 + hi / 2 + 1 / 1000000000" "0 < double h"
    using q h unfolding half by linarith+
  then show "lo / 2 + hi / 2 - 1 / 1000000000 \<le> double (double (lo + hi) / 2)"
    and "double (double (lo + hi) / 2) \<le> lo / 2 + hi / 2 + 1 / 1000000000"
    and "0 < double (double (lo + hi) / 2)"
    by (simp_all only: h_def s_def)
qed

lemma searchQualityDouble_returns:
  assumes "0 < minQuality s" and "minQuality s \<le> 2 - of_nat k / 10"
    and "0 < maxQuality s" and "maxQuality s \<le> 2 - of_nat k / 10"
    and "maxQuality s - minQuality s \<le> 2 ^ k * (48 / 1000) + 2 / 1000000000"
  shows "\<exists>r. searchQualityDouble b canvas format targetSize s = Some r
             \<and> iterations (fst r) \<le> iterations s + k"
  using assms
proof (induction k arbitrary: s)
  case 0
  then have "maxQuality s - minQuality s \<le> 49 / 1000" by simp
  from search_exit [OF this] show ?case
    by (subst searchQualityDouble.simps) simp
next
  case (Suc k)
  let ?lo = "minQuality s" and ?hi = "maxQuality s"
  let ?q = "double (double (?lo + ?hi) / 2)"
  let ?s1 = "s\<lparr>iterations := Suc (iterations s)\<rparr>"
  define K :: rat where "K = of_nat k"
  have K: "0 \<le> K" by (simp add: K_def)
  have pre: "?lo \<le> 2 - (K + 1) / 10" "?hi \<le> 2 - (K + 1) / 10"
    using Suc.prems(2,4) by (simp_all add: K_def add.commute)
  have "(K + 1) / 10 \<ge> 0" using K by simp
  then have lohi: "?lo \<le> 2" "?hi \<le> 2" using pre by linarith+
  note mid = midpoint_near [OF Suc.prems(1) Suc.prems(3) lohi]
  have K1: "(K + 1) / 10 = K / 10 + 1 / 10" by (simp add: add_divide_distrib)
  have up: "?lo \<le> 2 - K / 10" "?hi \<le> 2 - K / 10"
    using pre unfolding K1 by linarith+
  have qup: "?q \<le> 2 - K / 10"
    using mid(2) pre unfolding K1 by linarith
  define A :: rat where "A = 2 ^ k * (48 / 1000)"
  have d: "?hi - ?lo \<le> 2 * A + 2 / 1000000000"
    using Suc.prems(5) by (simp add: A_def)
  have dfit: "?q - ?lo \<le> A + 2 / 1000000000"
    using mid(2) d by linarith
  have dmiss: "?hi - ?q \<le> A + 2 / 1000000000"
    using mid(1) d by linarith
  show ?case
  proof (cases "double (?hi - ?lo) > double (1 / 20)")
    case False
    then show ?thesis by (subst searchQualityDouble.simps) simp
  next
    case True
    show ?thesis
    proof (cases "canvasToBlob b canvas format ?q")
      case None
      with True show ?thesis by (subst searchQualityDouble.simps) (simp add: Let_def)
    next
      case (Some blob)
      show ?thesis
      proof (cases "blob_size blob \<le> targetSize")
        case fit: True
        let ?s' = "?s1\<lparr>bestBlob := blob, bestQuality := ?q, maxQuality := ?q\<rparr>"
        have "\<exists>r. searchQualityDouble b canvas format targetSize ?s' = Some r
                 \<and> iterations (fst r) \<le> iterations ?s' + k"
          using Suc.prems(1) up(1) mid(3) qup dfit by (intro Suc.IH) (simp_all add: A_def K_def)
        then show ?thesis using True Some fit
          by (subst searchQualityDouble.simps) (simp add: Let_def)
      next
        case miss: False
        let ?s' = "?s1\<lparr>minQuality := ?q\<rparr>"
        have "\<exists>r. searchQualityDouble b canvas format targetSize ?s' = Some r
                 \<and> iterations (fst r) \<le> iterations ?s' + k"
          using Suc.prems(3) up(2) mid(3) qup dmiss by (intro Suc.IH) (simp_all add: A_def K_def)
        then show ?thesis using True Some miss
          by (subst searchQualityDouble.simps) (simp add: Let_def)
      qed
    qed
  qed
qed

lemma ceiling_log2_sixteen:
  "\<lceil>log 2 (real_of_rat ((9 / 10 - 1 / 10) / (1 / 20)))\<rceil> = 4"
proof -
  have "((9 / 10 - 1 / 10) / (1 / 20) :: rat) = 16" by simp
  then have "real_of_rat ((9 / 10 - 1 / 10) / (1 / 20)) = real_of_rat 16" by (rule arg_cong)
  also have "real_of_rat 16 = 2 ^ 4" by simp
  finally have "real_of_rat ((9 / 10 - 1 / 10) / (1 / 20)) = 2 ^ 4" .
  moreover have "log 2 ((2 :: real) ^ 4) = 4" using log_nat_power [of 2 2 4] by simp
  ultimately have "log 2 (real_of_rat ((9 / 10 - 1 / 10) / (1 / 20))) = 4" by (simp only:)
  then show ?thesis by (simp only: ceiling_numeral)
qed

lemma ceiling_log2_fifth:
  "\<lceil>log 2 (real_of_rat ((11 / 100 - 1 / 10) / (1 / 20)))\<rceil> = - 2"
proof -
  have "((11 / 100 - 1 / 10) / (1 / 20) :: rat) = 1 / 5" by simp
  then have "real_of_rat ((11 / 100 - 1 / 10) / (1 / 20)) = real_of_rat (1 / 5)" by (rule arg_cong)
  also have "real_of_rat (1 / 5) = 1 / 5" by (simp only: of_rat_divide of_rat_numeral_eq of_rat_1)
  finally have "real_of_rat ((11 / 100 - 1 / 10) / (1 / 20)) = 1 / 5" .
  moreover have "\<lceil>log 2 (1 / 5 :: real)\<rceil> = - 2"
  proof (rule ceiling_unique)
    have "log 2 (1 / 5 :: real) \<le> log 2 (1 / 4)" by (subst log_le_cancel_iff) simp_all
    also have "log 2 (1 / 4 :: real) = - 2"
      using log_nat_power [of 2 2 2] by (simp add: log_divide)
    finally show "log 2 (1 / 5 :: real) \<le> of_int (- 2)" by simp
    have "log 2 (1 / 8 :: real) < log 2 (1 / 5)" by (subst log_less_cancel_iff) simp_all
    moreover have "log 2 (1 / 8 :: real) = - 3"
      using log_nat_power [of 2 2 3] by (simp add: log_divide)
    ultimately show "of_int (- 2) - 1 < log 2 (1 / 5 :: real)" by simp
  qed
  ultimately show ?thesis by (simp only:)
qed

lemma ceiling_log2_power:
  fixes x :: rat
  assumes "1 / 2 < x" and "x \<le> 18"
  shows "0 \<le> \<lceil>log 2 (real_of_rat x)\<rceil>" and "\<lceil>log 2 (real_of_rat x)\<rceil> \<le> 5"
    and "x \<le> 2 ^ nat \<lceil>log 2 (real_of_rat x)\<rceil>"
proof -
  define y where "y = real_of_rat x"
  define j where "j = \<lceil>log 2 y\<rceil>"
  have "real_of_rat (1 / 2) < real_of_rat x" using assms(1) by (simp only: of_rat_less)
  then have y1: "1 / 2 < y" by (simp add: y_def of_rat_divide)
  have "real_of_rat x \<le> real_of_rat 18" using assms(2) by (simp only: of_rat_less_eq)
  then have y2: "y \<le> 18" by (simp add: y_def)
  have y0: "0 < y" using y1 by linarith
  have "log 2 (1 / 2 :: real) < log 2 y" using y1 y0 by (subst log_less_cancel_iff) simp_all
  moreover have "log 2 (1 / 2 :: real) = - 1" by (simp add: log_divide)
  ultimately have "- 1 < log 2 y" by simp
  then have "- 1 < real_of_int j" unfolding j_def using le_of_int_ceiling [of "log 2 y"] by linarith
  then show j0: "0 \<le> \<lceil>log 2 (real_of_rat x)\<rceil>" unfolding j_def y_def by linarith
  have "log 2 y \<le> log 2 32" using y2 y0 by (subst log_le_cancel_iff) simp_all
  moreover have "log 2 (32 :: real) = 5" using log_nat_power [of 2 2 5] by simp
  ultimately have "log 2 y \<le> real_of_int 5" by simp
  then show "\<lceil>log 2 (real_of_rat x)\<rceil> \<le> 5" unfolding y_def by (simp only: ceiling_le_iff)
  have "log 2 y \<le> real_of_int j" unfolding j_def by (rule le_of_int_ceiling)
  also have "real_of_int j = real (nat j)" using j0 by (simp add: j_def y_def)
  finally have "log 2 y \<le> real (nat j)" .
  then have "y \<le> 2 powr real (nat j)" using y0 by (simp add: log_le_iff)
  then have "y \<le> 2 ^ nat j" by (simp add: powr_realpow)
  then have "real_of_rat x \<le> real_of_rat (2 ^ nat j)" by (simp add: y_def of_rat_power)
  then have "x \<le> 2 ^ nat j" by (simp only: of_rat_less_eq)
  then show "x \<le> 2 ^ nat \<lceil>log 2 (real_of_rat x)\<rceil>" by (simp only: j_def y_def)
qed

text \<open>
  C4, as stated, on the loop in double precision. At the initial quality 0.9 the bound
  \<open>ceil (log2 ((0.9 - 0.1) / 0.05)) = ceil (log2 16)\<close> is 4. The first encode has 400
  bytes, over the ceiling of 250, and the probes at 0.5, 0.3, 0.2 and 0.15 all fit. The
  fourth midpoint is a double above 0.15 and \<^verbatim>\<open>0.1\<close> is the double above 0.1, their
  difference is rounded to a double above the one \<^verbatim>\<open>0.05\<close> stands for, and the loop makes
  a fifth pass, at 0.125. At the initial quality 0.11 the loop body never runs, and the
  bound \<open>ceil (log2 ((0.11 - 0.1) / 0.05)) = ceil (log2 0.2)\<close> is \<open>-2\<close>: one more than the
  bound is still negative.
\<close>

theorem iterations_bound_as_stated_fails:
  "(1 / 10 :: rat) \<le> 9 / 10 \<and> (9 / 10 :: rat) \<le> 1
   \<and> searchQualityDouble (testBrowser 1000 1000 bytesByQuality) (blankCanvas 1000 1000)
         ''image/jpeg'' 250
         \<lparr>minQuality = double (1 / 10), maxQuality = double (9 / 10),
          bestBlob = \<lparr>blob_size = 400, blob_data = (1000, 1000, double (9 / 10))\<rparr>,
          bestQuality = double (9 / 10), iterations = 0\<rparr>
       = Some (\<lparr>minQuality = double (1 / 10), maxQuality = 1 / 8,
                bestBlob = \<lparr>blob_size = 100, blob_data = (1000, 1000, 1 / 8)\<rparr>,
                bestQuality = 1 / 8, iterations = 5\<rparr>, None)
   \<and> \<not> (5 :: int) \<le> \<lceil>log 2 (real_of_rat ((9 / 10 - 1 / 10) / (1 / 20)))\<rceil>
   \<and> (1 / 10 :: rat) \<le> 11 / 100 \<and> (11 / 100 :: rat) \<le> 1
   \<and> searchQualityDouble (testBrowser 1000 1000 bytesByQuality) (blankCanvas 1000 1000)
         ''image/jpeg'' 50
         \<lparr>minQuality = double (1 / 10), maxQuality = double (11 / 100),
          bestBlob = \<lparr>blob_size = 100, blob_data = (1000, 1000, double (11 / 100))\<rparr>,
          bestQuality = double (11 / 100), iterations = 0\<rparr>
       = Some (\<lparr>minQuality = double (1 / 10), maxQuality = double (11 / 100),
                bestBlob = \<lparr>blob_size = 100, blob_data = (1000, 1000, double (11 / 100))\<rparr>,
                bestQuality = double (11 / 100), iterations = 0\<rparr>, None)
   \<and> \<not> (0 :: int) \<le> \<lceil>log 2 (real_of_rat ((11 / 100 - 1 / 10) / (1 / 20)))\<rceil> + 1"
proof -
  have a: "searchQualityDouble (testBrowser 1000 1000 bytesByQuality) (blankCanvas 1000 1000)
         ''image/jpeg'' 250
         \<lparr>minQuality = double (1 / 10), maxQuality = double (9 / 10),
          bestBlob = \<lparr>blob_size = 400, blob_data = (1000, 1000, double (9 / 10))\<rparr>,
          bestQuality = double (9 / 10), iterations = 0\<rparr>
       = Some (\<lparr>minQuality = double (1 / 10), maxQuality = 1 / 8,
                bestBlob = \<lparr>blob_size = 100, blob_data = (1000, 1000, 1 / 8)\<rparr>,
                bestQuality = 1 / 8, iterations = 5\<rparr>, None)"
    by (simp add: double_literals searchQualityDouble.simps Let_def canvasToBlob_def
          testBrowser_def bytesByQuality_def blankCanvas_def ceiling_rat_numeral ceiling_rat_one
          double_eval roundEven_def floor_rat_numeral)
  have b: "searchQualityDouble (testBrowser 1000 1000 bytesByQuality) (blankCanvas 1000 1000)
         ''image/jpeg'' 50
         \<lparr>minQuality = double (1 / 10), maxQuality = double (11 / 100),
          bestBlob = \<lparr>blob_size = 100, blob_data = (1000, 1000, double (11 / 100))\<rparr>,
          bestQuality = double (11 / 100), iterations = 0\<rparr>
       = Some (\<lparr>minQuality = double (1 / 10), maxQuality = double (11 / 100),
                bestBlob = \<lparr>blob_size = 100, blob_data = (1000, 1000, double (11 / 100))\<rparr>,
                bestQuality = double (11 / 100), iterations = 0\<rparr>, None)"
    by (simp add: double_literals searchQualityDouble.simps Let_def
          double_eval roundEven_def floor_rat_numeral)
  show ?thesis
    by (simp only: a b ceiling_log2_sixteen ceiling_log2_fifth) simp
qed

text \<open>
  C4, amended. For every initial quality \<open>Q0\<close> in \<open>[0.1, 1]\<close>, held by the program as the
  double nearest to it, every ceiling and every encoder, the loop in double precision
  returns, after at most \<open>max 0 (ceil (log2 ((Q0 - 0.1) / 0.05)) + 1)\<close> passes through its
  body, and after at most 5.
\<close>

theorem search_iterations_bounded:
  assumes "1 / 10 \<le> Q0" and "Q0 \<le> 1"
  shows "\<exists>r. searchQualityDouble b canvas format targetSize
               \<lparr>minQuality = double (1 / 10), maxQuality = double Q0, bestBlob = blob,
                bestQuality = double Q0, iterations = 0\<rparr> = Some r
             \<and> int (iterations (fst r))
                 \<le> max 0 (\<lceil>log 2 (real_of_rat ((Q0 - 1 / 10) / (1 / 20)))\<rceil> + 1)
             \<and> iterations (fst r) \<le> 5"
proof -
  define s0 where "s0 = \<lparr>minQuality = double (1 / 10), maxQuality = double Q0, bestBlob = blob,
                bestQuality = double Q0, iterations = 0\<rparr>"
  define x where "x = (Q0 - 1 / 10) / (1 / 20)"
  define j where "j = \<lceil>log 2 (real_of_rat x)\<rceil>"
  have Q: "0 < Q0" using assms by linarith
  have lo: "minQuality s0 = 3602879701896397 / 36028797018963968"
    by (simp add: s0_def double_literals)
  have hi: "Q0 - Q0 / 10000000000 \<le> maxQuality s0" "maxQuality s0 \<le> Q0 + Q0 / 10000000000"
    using double_near [OF Q] by (simp_all add: s0_def)
  have it: "iterations s0 = 0" by (simp add: s0_def)
  have xQ: "x / 20 = Q0 - 1 / 10" by (simp add: x_def)
  have x18: "x \<le> 18" using assms xQ by linarith
  have d: "maxQuality s0 - minQuality s0 \<le> x / 20 + 1 / 1000000000"
    using hi lo assms xQ by linarith
  have lo0: "0 < minQuality s0" and lo1: "minQuality s0 \<le> 14 / 10" using lo by simp_all
  have hi0: "0 < maxQuality s0" and hi1: "maxQuality s0 \<le> 14 / 10" using hi Q assms by linarith+
  have "\<exists>r. searchQualityDouble b canvas format targetSize s0 = Some r
            \<and> iterations (fst r) \<le> iterations s0 + 5"
  proof (rule searchQualityDouble_returns)
    show "0 < minQuality s0" by (rule lo0)
    show "minQuality s0 \<le> 2 - of_nat 5 / 10" using lo1 by simp
    show "0 < maxQuality s0" by (rule hi0)
    show "maxQuality s0 \<le> 2 - of_nat 5 / 10" using hi1 by simp
    show "maxQuality s0 - minQuality s0 \<le> 2 ^ 5 * (48 / 1000) + 2 / 1000000000"
      using d x18 by simp
  qed
  then obtain r where r: "searchQualityDouble b canvas format targetSize s0 = Some r"
    and r5: "iterations (fst r) \<le> 5" using it by auto
  have "int (iterations (fst r)) \<le> max 0 (j + 1)"
  proof (cases "x \<le> 1 / 2")
    case True
    have "\<exists>r. searchQualityDouble b canvas format targetSize s0 = Some r
            \<and> iterations (fst r) \<le> iterations s0 + 0"
    proof (rule searchQualityDouble_returns)
      show "0 < minQuality s0" by (rule lo0)
      show "minQuality s0 \<le> 2 - of_nat 0 / 10" using lo1 by simp
      show "0 < maxQuality s0" by (rule hi0)
      show "maxQuality s0 \<le> 2 - of_nat 0 / 10" using hi1 by simp
      show "maxQuality s0 - minQuality s0 \<le> 2 ^ 0 * (48 / 1000) + 2 / 1000000000"
        using d True by simp
    qed
    then have "iterations (fst r) = 0" using r it by auto
    then show ?thesis by simp
  next
    case False
    then have half: "1 / 2 < x" by simp
    have j0: "0 \<le> j" and j5: "j \<le> 5" and xj: "x \<le> 2 ^ nat j"
      unfolding j_def using ceiling_log2_power [OF half x18] by simp_all
    define k where "k = nat (j + 1)"
    have k: "k = Suc (nat j)" using j0 by (simp add: k_def nat_add_distrib)
    have k6: "k \<le> 6" using j5 by (simp add: k_def)
    then have K: "(of_nat k :: rat) \<le> 6" by (metis of_nat_le_iff of_nat_numeral)
    have "\<exists>r. searchQualityDouble b canvas format targetSize s0 = Some r
            \<and> iterations (fst r) \<le> iterations s0 + k"
    proof (rule searchQualityDouble_returns)
      show "0 < minQuality s0" by (rule lo0)
      show "minQuality s0 \<le> 2 - of_nat k / 10" using lo1 K by linarith
      show "0 < maxQuality s0" by (rule hi0)
      show "maxQuality s0 \<le> 2 - of_nat k / 10" using hi1 K by linarith
      have "x / 20 \<le> 2 ^ nat j / 20" using xj by simp
      also have "\<dots> \<le> 2 ^ k * (48 / 1000 :: rat)" unfolding k by simp
      finally show "maxQuality s0 - minQuality s0 \<le> 2 ^ k * (48 / 1000) + 2 / 1000000000"
        using d by linarith
    qed
    then have "iterations (fst r) \<le> k" using r it by auto
    then have "int (iterations (fst r)) \<le> j + 1" using j0 by (simp add: k_def)
    then show ?thesis by simp
  qed
  then show ?thesis using r r5 unfolding s0_def j_def x_def by blast
qed

theorem search_iterations_bounded_witness:
  "(1 / 10 :: rat) \<le> 9 / 10 \<and> (9 / 10 :: rat) \<le> 1
   \<and> (\<exists>r. searchQualityDouble (testBrowser 1000 1000 bytesByQuality) (blankCanvas 1000 1000)
               ''image/jpeg'' 250
               \<lparr>minQuality = double (1 / 10), maxQuality = double (9 / 10),
                bestBlob = \<lparr>blob_size = 400, blob_data = (1000, 1000, double (9 / 10))\<rparr>,
                bestQuality = double (9 / 10), iterations = 0\<rparr> = Some r
             \<and> int (iterations (fst r))
                 \<le> max 0 (\<lceil>log 2 (real_of_rat ((9 / 10 - 1 / 10) / (1 / 20)))\<rceil> + 1)
             \<and> iterations (fst r) \<le> 5)"
  using search_iterations_bounded [of "9 / 10" "testBrowser 1000 1000 bytesByQuality"
      "blankCanvas 1000 1000" "''image/jpeg''" 250
      "\<lparr>blob_size = 400, blob_data = (1000, 1000, double (9 / 10))\<rparr>"]
  by simp

text \<open>
  At the input of C1 below, initial quality 0.8 and a ceiling of 250 bytes, the loop in
  double precision makes the same four passes as the exact one, at the doubles nearest to
  0.45, 0.275, 0.1875 and 0.14375, and leaves with the blob of the last.
\<close>

lemma searchQualityDouble_lowest_fit:
  "searchQualityDouble (testBrowser 1000 1000 bytesByQuality) (blankCanvas 1000 1000)
     ''image/jpeg'' 250
     \<lparr>minQuality = double (1 / 10), maxQuality = double (4 / 5),
      bestBlob = \<lparr>blob_size = 400, blob_data = (1000, 1000, double (4 / 5))\<rparr>,
      bestQuality = double (4 / 5), iterations = 0\<rparr>
   = Some (\<lparr>minQuality = double (1 / 10), maxQuality = double (23 / 160),
            bestBlob = \<lparr>blob_size = 100, blob_data = (1000, 1000, double (23 / 160))\<rparr>,
            bestQuality = double (23 / 160), iterations = 4\<rparr>, None)
   \<and> double ((1 / 10 + 4 / 5) / 2) = double (double (double (1 / 10) + double (4 / 5)) / 2)"
  by (simp add: double_literals searchQualityDouble.simps Let_def canvasToBlob_def
        testBrowser_def bytesByQuality_def blankCanvas_def ceiling_rat_numeral ceiling_rat_one
        double_eval roundEven_def floor_rat_numeral)


section \<open>What the compressor returns\<close>

text \<open>
  C1 on the code. The first encode at quality 0.8 has 400 bytes, over the ceiling of 250.
  The search probes 0.45, which fits with 200 bytes, and then, having moved the upper
  bound down to it, only lower qualities: 0.275, 0.1875 and 0.14375 all fit. It returns the
  last of them, the blob made at quality 0.14375 with 100 bytes: of the candidates that
  fit, the one of lowest quality, not the one made at 0.45.
\<close>

theorem search_returns_lowest_fit:
  "iterateCompression (testBrowser 1000 1000 bytesByQuality) (blankCanvas 1000 1000)
     ''image/jpeg'' 250 (4 / 5)
     = Inr (Some \<lparr>blob_size = 100, blob_data = (1000, 1000, 23 / 160)\<rparr>)
   \<and> (1 / 10 + 4 / 5) / 2 = (9 / 20 :: rat)
   \<and> canvasToBlob (testBrowser 1000 1000 bytesByQuality) (blankCanvas 1000 1000)
         ''image/jpeg'' (9 / 20)
       = Some \<lparr>blob_size = 200, blob_data = (1000, 1000, 9 / 20)\<rparr>
   \<and> canvasToBlob (testBrowser 1000 1000 bytesByQuality) (blankCanvas 1000 1000)
         ''image/jpeg'' (4 / 5)
       = Some \<lparr>blob_size = 400, blob_data = (1000, 1000, 4 / 5)\<rparr>"
  by (simp add: iterateCompression_def searchQuality.simps Let_def canvasToBlob_def
        testBrowser_def bytesByQuality_def blankCanvas_def ceiling_rat_numeral)

text \<open>
  When no encode of the canvas meets the ceiling, at any quality, the search keeps the
  first blob and the initial quality, and \<^verbatim>\<open>iterateCompression\<close> hands over to
  \<^verbatim>\<open>compressByResizing\<close> with the initial quality.
\<close>

lemma searchQuality_all_miss:
  assumes "\<And>q. \<exists>blob. canvasToBlob b canvas format q = Some blob \<and> targetSize < blob_size blob"
  shows "snd (searchQuality b canvas format targetSize s) = None
         \<and> bestBlob (fst (searchQuality b canvas format targetSize s)) = bestBlob s
         \<and> bestQuality (fst (searchQuality b canvas format targetSize s)) = bestQuality s"
  using assms
proof (induction b canvas format targetSize s rule: searchQuality.induct)
  case (1 b canvas format targetSize s)
  let ?q = "(minQuality s + maxQuality s) / 2"
  let ?s1 = "s\<lparr>iterations := Suc (iterations s)\<rparr>"
  show ?case
  proof (cases "maxQuality s - minQuality s > 1 / 20")
    case False
    then show ?thesis by (simp add: searchQuality.simps [of b canvas format targetSize s])
  next
    case True
    from "1.prems" [of ?q] obtain blob where
      blob: "canvasToBlob b canvas format ?q = Some blob" and miss: "\<not> blob_size blob \<le> targetSize"
      by auto
    have step: "searchQuality b canvas format targetSize s
                  = searchQuality b canvas format targetSize (?s1\<lparr>minQuality := ?q\<rparr>)"
      using True blob miss
      by (simp add: searchQuality.simps [of b canvas format targetSize s] Let_def)
    from "1.IH"(2) [OF True refl refl blob miss "1.prems"] show ?thesis
      by (simp add: step)
  qed
qed

lemma iterateCompression_all_miss:
  assumes "\<And>q. \<exists>blob. canvasToBlob b canvas format q = Some blob \<and> targetSize < blob_size blob"
  shows "iterateCompression b canvas format targetSize initialQuality
           = compressByResizing b canvas format targetSize initialQuality"
proof -
  from assms [of initialQuality] obtain blob where
    blob: "canvasToBlob b canvas format initialQuality = Some blob" "targetSize < blob_size blob"
    by auto
  let ?s = "\<lparr>minQuality = 1 / 10, maxQuality = initialQuality, bestBlob = blob,
             bestQuality = initialQuality, iterations = 0\<rparr>"
  obtain s' e where r: "searchQuality b canvas format targetSize ?s = (s', e)"
    by (cases "searchQuality b canvas format targetSize ?s")
  from searchQuality_all_miss [OF assms, of ?s] r
  have "e = None" "bestBlob s' = blob" "bestQuality s' = initialQuality" by simp_all
  then show ?thesis using blob r by (simp add: iterateCompression_def)
qed

text \<open>
  C2 on the code. A canvas of 1000 by 1000 pixels, one byte per pixel, so that no quality
  meets a ceiling of 50000 bytes and the search hands over to the resizing. The scale is
  multiplied by 0.9 in every pass and applied to the canvas of the pass before, so the
  sides are 900, 729, 531, 348, 205 and so on: the second pass shrinks by 0.81, and the
  fifth result, returned under a ceiling of 50000 bytes, has 0.205 of the original side,
  below 0.3. With a ceiling nothing meets, the canvas ends at 1 by 1 and is encoded at
  quality 0.1.
\<close>

theorem resize_compounds_scale:
  "iterateCompression (testBrowser 1000 1000 bytesByArea) (blankCanvas 1000 1000)
     ''image/jpeg'' 50000 (9 / 10)
     = Inr (Some \<lparr>blob_size = 42025, blob_data = (205, 205, 9 / 10)\<rparr>)
   \<and> compressByResizing (testBrowser 1000 1000 bytesByArea) (blankCanvas 1000 1000)
       ''image/jpeg'' 50000 (9 / 10)
     = Inr (Some \<lparr>blob_size = 42025, blob_data = (205, 205, 9 / 10)\<rparr>)
   \<and> (205 :: rat) < 3 / 10 * 1000
   \<and> compressByResizing (testBrowser 1000 1000 bytesByArea) (blankCanvas 1000 1000)
       ''image/jpeg'' 700000 (9 / 10)
     = Inr (Some \<lparr>blob_size = 531441, blob_data = (729, 729, 9 / 10)\<rparr>)
   \<and> compressByResizing (testBrowser 1000 1000 bytesByArea) (blankCanvas 1000 1000)
       ''image/jpeg'' 0 (9 / 10)
     = Inr (Some \<lparr>blob_size = 1, blob_data = (1, 1, 1 / 10)\<rparr>)"
  by (simp add: iterateCompression_def searchQuality.simps
        compressByResizing_def resizeLoop.simps Let_def canvasToBlob_def
        drawImageToCanvas_def testBrowser_def bytesByArea_def blankCanvas_def Math_round_def
        floor_rat_numeral)

text \<open>
  From 1000 by 400 pixels the height reaches zero in the last pass of the loop; the canvas
  then encodes to \<^verbatim>\<open>null\<close>, and reading its size throws.
\<close>

lemma resize_reaches_empty_canvas:
  "compressByResizing (testBrowser 1000 400 bytesByArea) (blankCanvas 1000 400)
     ''image/jpeg'' 0 (9 / 10) = Inl NullBlob"
  by (simp add: compressByResizing_def resizeLoop.simps Let_def canvasToBlob_def
        drawImageToCanvas_def testBrowser_def bytesByArea_def blankCanvas_def Math_round_def
        floor_rat_numeral)


text \<open>
  What the loop does return: a blob that meets the ceiling, or the encode at quality 0.1
  of the canvas the loop ended with.
\<close>

lemma resizeLoop_result:
  assumes "resizeLoop b format targetSize quality currentCanvas scale = Inr (Some blob)"
  shows "blob_size blob \<le> targetSize
         \<or> (\<exists>lastCanvas. canvasToBlob b lastCanvas format (1 / 10) = Some blob)"
  using assms
proof (induction b format targetSize quality currentCanvas scale rule: resizeLoop.induct)
  case (1 b format targetSize quality currentCanvas scale)
  let ?newCanvas = "drawImageToCanvas b (bitmap currentCanvas)
                      (Math_round (of_int (width currentCanvas) * scale))
                      (Math_round (of_int (height currentCanvas) * scale))"
  show ?case
  proof (cases "scale > 3 / 10")
    case False
    with "1.prems" have "canvasToBlob b currentCanvas format (1 / 10) = Some blob"
      by (simp add: resizeLoop.simps [of b format targetSize quality currentCanvas scale])
    then show ?thesis by blast
  next
    case True
    show ?thesis
    proof (cases "canvasToBlob b ?newCanvas format quality")
      case None
      with True "1.prems" show ?thesis
        by (simp add: resizeLoop.simps [of b format targetSize quality currentCanvas scale] Let_def)
    next
      case (Some blob')
      show ?thesis
      proof (cases "blob_size blob' \<le> targetSize")
        case fit: True
        with True Some "1.prems" have "blob = blob'"
          by (simp add: resizeLoop.simps [of b format targetSize quality currentCanvas scale] Let_def)
        with fit show ?thesis by simp
      next
        case miss: False
        with True Some "1.prems"
        have "resizeLoop b format targetSize quality ?newCanvas (scale * (9 / 10)) = Inr (Some blob)"
          by (simp add: resizeLoop.simps [of b format targetSize quality currentCanvas scale] Let_def)
        from "1.IH" [OF True refl refl refl Some miss this] show ?thesis .
      qed
    qed
  qed
qed

section \<open>Properties of the crop region\<close>

lemma moveCropBox_keeps_box:
  assumes "boxInCanvas c"
  shows "boxInCanvas (moveCropBox deltaX deltaY c)"
  using assms by (simp add: boxInCanvas_def moveCropBox_def Let_def)

lemma initCropBox_in_canvas:
  assumes "0 \<le> canvasWidth c" and "0 \<le> canvasHeight c"
  shows "boxInCanvas (initCropBox c)"
  using assms by (simp add: boxInCanvas_def initCropBox_def)

text \<open>
  With the box inside a canvas of positive size, the region starts inside the image and
  ends at most one pixel outside it.
\<close>

lemma crop_region_within_one_pixel:
  assumes box: "boxInCanvas c" and cw: "0 < canvasWidth c" and ch: "0 < canvasHeight c"
  shows "0 \<le> cropX (cropRegion c) \<and> 0 \<le> cropY (cropRegion c)
         \<and> cropX (cropRegion c) + cropWidth (cropRegion c) \<le> int (imageWidth c) + 1
         \<and> cropY (cropRegion c) + cropHeight (cropRegion c) \<le> int (imageHeight c) + 1"
proof -
  have two: "Math_round u + Math_round v \<le> n + 1"
    if "u + v \<le> of_int n" for u v :: rat and n :: int
  proof -
    have "of_int (Math_round u) \<le> u + 1 / 2" "of_int (Math_round v) \<le> v + 1 / 2"
      using Math_round_near [of u] Math_round_near [of v] by linarith+
    then have "(of_int (Math_round u + Math_round v) :: rat) \<le> of_int (n + 1)"
      using that by simp
    then show ?thesis by (simp only: of_int_le_iff)
  qed
  have nonneg: "0 \<le> Math_round u" if "0 \<le> u" for u :: rat
    using Math_round_mono [OF that] Math_round_of_int [of 0] by simp
  define sx :: rat where "sx = of_nat (imageWidth c) / of_int (canvasWidth c)"
  define sy :: rat where "sy = of_nat (imageHeight c) / of_int (canvasHeight c)"
  have s: "0 \<le> sx" "0 \<le> sy" using cw ch by (simp_all add: sx_def sy_def)
  have full: "of_int (canvasWidth c) * sx = of_nat (imageWidth c)"
    "of_int (canvasHeight c) * sy = of_nat (imageHeight c)"
    using cw ch by (simp_all add: sx_def sy_def)
  from box have b: "0 \<le> box_x (cropBox c)" "0 \<le> box_y (cropBox c)"
    "box_x (cropBox c) + box_width (cropBox c) \<le> of_int (canvasWidth c)"
    "box_y (cropBox c) + box_height (cropBox c) \<le> of_int (canvasHeight c)"
    by (simp_all add: boxInCanvas_def)
  have "(box_x (cropBox c) + box_width (cropBox c)) * sx \<le> of_int (canvasWidth c) * sx"
    using b(3) s(1) by (rule mult_right_mono)
  then have w: "box_x (cropBox c) * sx + box_width (cropBox c) * sx \<le> of_int (int (imageWidth c))"
    using full(1) by (simp add: distrib_right)
  have "(box_y (cropBox c) + box_height (cropBox c)) * sy \<le> of_int (canvasHeight c) * sy"
    using b(4) s(2) by (rule mult_right_mono)
  then have h: "box_y (cropBox c) * sy + box_height (cropBox c) * sy \<le> of_int (int (imageHeight c))"
    using full(2) by (simp add: distrib_right)
  have "0 \<le> box_x (cropBox c) * sx" "0 \<le> box_y (cropBox c) * sy"
    using b(1,2) s by simp_all
  then show ?thesis
    using nonneg two [OF w] two [OF h]
    by (simp add: cropRegion_def Let_def sx_def sy_def)
qed

text \<open>
  C6 on the code. An image of 1200 by 200 pixels is shown on a canvas of 600 by 100 with
  the box at (60, 10), 480 by 80. Choosing the ratio 1:1 makes the box 480 high, more than
  the canvas, with no check; the region then computed for the original image is 960 high
  from row 20, in an image of 200 rows.
\<close>

theorem crop_region_leaves_image:
  "initCrop (testBrowser 1200 200 bytesByArea) (pngFile ''wide.png'' 1000)
     = Inr \<lparr>imageWidth = 1200, imageHeight = 200, canvasWidth = 600, canvasHeight = 100,
            cropBox = \<lparr>box_x = 60, box_y = 10, box_width = 480, box_height = 80\<rparr>,
            aspectRatio = None\<rparr>
   \<and> cropRegion (setAspectRatio ''1:1''
         \<lparr>imageWidth = 1200, imageHeight = 200, canvasWidth = 600, canvasHeight = 100,
          cropBox = \<lparr>box_x = 60, box_y = 10, box_width = 480, box_height = 80\<rparr>,
          aspectRatio = None\<rparr>)
       = \<lparr>cropX = 120, cropY = 20, cropWidth = 960, cropHeight = 960\<rparr>
   \<and> \<not> regionInImage
         \<lparr>imageWidth = 1200, imageHeight = 200, canvasWidth = 600, canvasHeight = 100,
          cropBox = \<lparr>box_x = 60, box_y = 10, box_width = 480, box_height = 480\<rparr>,
          aspectRatio = Some ''1:1''\<rparr>
         \<lparr>cropX = 120, cropY = 20, cropWidth = 960, cropHeight = 960\<rparr>"
  by (simp add: initCrop_def initCropBox_def validateFile_def supportedFormats_def maxFileSize_def
        pngFile_def testBrowser_def calculateResizedDimensions_def setAspectRatio_def
        cropRegion_def regionInImage_def Let_def Math_round_def floor_rat_numeral)

text \<open>
  A box inside the canvas can still give a region outside the image, by one pixel:
  position and extent are rounded separately, and two ties both go up.
\<close>

lemma crop_region_rounds_past_image:
  "initCrop (testBrowser 607 405 bytesByArea) (pngFile ''photo.png'' 1000)
     = Inr \<lparr>imageWidth = 607, imageHeight = 405, canvasWidth = 600, canvasHeight = 400,
            cropBox = \<lparr>box_x = 60, box_y = 40, box_width = 480, box_height = 320\<rparr>,
            aspectRatio = None\<rparr>
   \<and> boxInCanvas (setAspectRatio ''4:3''
         \<lparr>imageWidth = 607, imageHeight = 405, canvasWidth = 600, canvasHeight = 400,
          cropBox = \<lparr>box_x = 60, box_y = 40, box_width = 480, box_height = 320\<rparr>,
          aspectRatio = None\<rparr>)
   \<and> cropRegion (setAspectRatio ''4:3''
         \<lparr>imageWidth = 607, imageHeight = 405, canvasWidth = 600, canvasHeight = 400,
          cropBox = \<lparr>box_x = 60, box_y = 40, box_width = 480, box_height = 320\<rparr>,
          aspectRatio = None\<rparr>)
       = \<lparr>cropX = 61, cropY = 41, cropWidth = 486, cropHeight = 365\<rparr>
   \<and> (41 + 365 :: int) > 405"
  by (simp add: initCrop_def initCropBox_def validateFile_def supportedFormats_def maxFileSize_def
        pngFile_def testBrowser_def calculateResizedDimensions_def setAspectRatio_def
        cropRegion_def boxInCanvas_def Let_def Math_round_def floor_rat_numeral)

section \<open>Properties of the watermark anchors\<close>

text \<open>
  C7, as stated, at the anchor \<^verbatim>\<open>top-left\<close>: a text of 100 by 100 on a canvas of 100 by
  100 with a padding of 20 starts at \<open>x = 20\<close> and ends at \<open>x = 120\<close>, outside the canvas.
\<close>

theorem text_watermark_leaves_canvas:
  "''top-left'' \<in> set anchors \<and> (0::rat) \<le> 20 \<and> (100::rat) \<le> 100
   \<and> \<not> withinCanvas 100 100 (textBox (calculatePosition 100 100 100 100 ''top-left'' 20) 100 100)"
  by (simp add: anchors_def calculatePosition_def textBox_def)

text \<open>
  C7, amended. For each of the five anchors, a padding that is not negative and a text
  watermark, not rotated, whose width plus the padding is at most the width of the canvas
  and whose height plus the padding is at most its height (at the centre the padding is
  not used and does not count), the box of the text lies within the canvas.
\<close>

theorem text_watermark_within_canvas:
  assumes "position \<in> set anchors" and "0 \<le> padding"
    and "0 \<le> watermarkWidth" and "0 \<le> watermarkHeight"
    and "watermarkWidth + (if position = ''center'' then 0 else padding) \<le> cw"
    and "watermarkHeight + (if position = ''center'' then 0 else padding) \<le> ch"
  shows "withinCanvas cw ch
           (textBox (calculatePosition cw ch watermarkWidth watermarkHeight position padding)
              watermarkWidth watermarkHeight)"
  using assms
  by (auto simp: anchors_def calculatePosition_def textBox_def field_simps split: if_splits)

theorem text_watermark_within_canvas_witness:
  "''bottom-right'' \<in> set anchors \<and> (0::rat) \<le> 20 \<and> (0::rat) \<le> 200 \<and> (0::rat) \<le> 24
   \<and> (200::rat) + (if ''bottom-right'' = ''center'' then 0 else 20) \<le> 800
   \<and> (24::rat) + (if ''bottom-right'' = ''center'' then 0 else 20) \<le> 600
   \<and> withinCanvas 800 600 (textBox (calculatePosition 800 600 200 24 ''bottom-right'' 20) 200 24)"
proof -
  have h: "''bottom-right'' \<in> set anchors" "(0::rat) \<le> 20" "(0::rat) \<le> 200" "(0::rat) \<le> 24"
    "(200::rat) + (if ''bottom-right'' = ''center'' then 0 else 20) \<le> 800"
    "(24::rat) + (if ''bottom-right'' = ''center'' then 0 else 20) \<le> 600"
    by (simp_all add: anchors_def)
  from text_watermark_within_canvas [OF h] h show ?thesis by blast
qed

text \<open>
  An image watermark is drawn downwards from the same point, which is the baseline of a
  text: at the bottom anchors it leaves the canvas.
\<close>

lemma image_watermark_leaves_canvas:
  "imageWatermarkSize 400 400 200 100 = (100, 50)
   \<and> \<not> withinCanvas 400 400 (imageBox (calculatePosition 400 400 100 50 ''bottom-right'' 20) 100 50)
   \<and> imageBox (calculatePosition 400 400 100 50 ''bottom-right'' 20) 100 50 = (280, 380, 380, 430)"
  by (simp add: imageWatermarkSize_def calculatePosition_def imageBox_def)




end
